theory Spec2Isabelle
  imports Main "HOL-Library.Sublist"
begin

section \<open>Python values and exceptions\<close>

text \<open>
  The script \<^verbatim>\<open>manual_parallel.py\<close> is modelled function by function. An exception is a
  value of \<open>py_error\<close>, and a function that may raise returns \<open>py_error + 'a\<close> with
  \<open>Inl\<close> for the raised exception. Strings are lists of code points below 256.
  \<open>RequestException\<close> stands for whatever \<^verbatim>\<open>requests\<close> raises on a transport failure,
  \<open>JSONDecodeError\<close> for a body that \<^verbatim>\<open>response.json()\<close> cannot decode. The interpreter
  is a 64-bit build with its default settings.
\<close>

datatype py_error =
    ValueError
  | OverflowError
  | MemoryError
  | KeyError
  | IndexError
  | TypeError
  | JSONDecodeError
  | RequestException string

subsection \<open>\<^verbatim>\<open>int(s)\<close> on a string\<close>

text \<open>
  \<^verbatim>\<open>int\<close> strips white space on both ends, reads an optional sign and then decimal
  digits, where a single underscore may stand between two digits. Anything else raises
  ValueError. The white space of \<^verbatim>\<open>int\<close> is tab, line feed, vertical tab, form feed,
  carriage return, space, and the two code points 0x85 and 0xA0. A text with more
  digits than the interpreter's limit for conversions, 4300 unless it is configured
  otherwise, raises ValueError as well; underscores, the sign and white space do not
  count, leading zeros do.
\<close>

definition int_max_str_digits :: nat where
  "int_max_str_digits = 4300"

definition py_isspace :: "char \<Rightarrow> bool" where
  "py_isspace c \<longleftrightarrow> (of_char c :: nat) \<in> {9, 10, 11, 12, 13, 32, 133, 160}"

definition is_digit :: "char \<Rightarrow> bool" where
  "is_digit c \<longleftrightarrow> 48 \<le> (of_char c :: nat) \<and> (of_char c :: nat) \<le> 57"

definition digit_val :: "char \<Rightarrow> nat" where
  "digit_val c = of_char c - 48"

definition strip :: "string \<Rightarrow> string" where
  "strip s = rev (dropWhile py_isspace (rev (dropWhile py_isspace s)))"

fun digits_from :: "nat \<Rightarrow> string \<Rightarrow> py_error + nat" where
  "digits_from acc [] = Inr acc"
| "digits_from acc [c] =
     (if is_digit c then Inr (10 * acc + digit_val c) else Inl ValueError)"
| "digits_from acc (c # d # cs) =
     (if is_digit c then digits_from (10 * acc + digit_val c) (d # cs)
      else if c = CHR ''_'' \<and> is_digit d then digits_from (10 * acc + digit_val d) cs
      else Inl ValueError)"

definition parse_digits :: "string \<Rightarrow> py_error + nat" where
  "parse_digits s =
     (case s of
        [] \<Rightarrow> Inl ValueError
      | c # cs \<Rightarrow>
          if \<not> is_digit c then Inl ValueError
          else if int_max_str_digits < length (filter is_digit s) then Inl ValueError
          else digits_from (digit_val c) cs)"

definition py_int :: "string \<Rightarrow> py_error + int" where
  "py_int s =
     (case strip s of
        [] \<Rightarrow> Inl ValueError
      | c # cs \<Rightarrow>
          if c = CHR ''-'' then map_sum id (\<lambda>n. - int n) (parse_digits cs)
          else if c = CHR ''+'' then map_sum id int (parse_digits cs)
          else map_sum id int (parse_digits (c # cs)))"

subsection \<open>\<^verbatim>\<open>str.split(sep)\<close>, \<^verbatim>\<open>range\<close> and tuple unpacking\<close>

fun split_on :: "char \<Rightarrow> string \<Rightarrow> string list" where
  "split_on sep [] = [[]]"
| "split_on sep (c # cs) =
     (if c = sep then [] # split_on sep cs
      else (case split_on sep cs of
              [] \<Rightarrow> [[c]]
            | p # ps \<Rightarrow> (c # p) # ps))"

definition py_range :: "int \<Rightarrow> int \<Rightarrow> int list" where
  "py_range a b = [a..b - 1]"

text \<open>
  \<^verbatim>\<open>list(range(a, b))\<close> asks the range for its length first. A length above the largest
  \<^verbatim>\<open>ssize_t\<close> raises OverflowError. Then the list is allocated, which raises MemoryError
  when the machine has no room for that many elements; \<open>room\<close> is the number of
  elements it has room for at that moment.
\<close>

definition ssize_t_max :: int where
  "ssize_t_max = 2 ^ 63 - 1"

definition list_of_range :: "nat \<Rightarrow> int \<Rightarrow> int \<Rightarrow> py_error + int list" where
  "list_of_range room a b =
     (let n = (if a < b then b - a else 0) in
      if ssize_t_max < n then Inl OverflowError
      else if int room < n then Inl MemoryError
      else Inr (py_range a b))"

text \<open>
  \<^verbatim>\<open>start, end = map(int, parts)\<close> draws from the lazy \<^verbatim>\<open>map\<close>: two values, then a
  third draw that must find the iterator exhausted. A part that \<^verbatim>\<open>int\<close> rejects raises
  when it is drawn; a wrong number of parts raises ValueError as well.
\<close>

fun unpack2 :: "string list \<Rightarrow> py_error + (int \<times> int)" where
  "unpack2 [] = Inl ValueError"
| "unpack2 [p] = (case py_int p of Inl e \<Rightarrow> Inl e | Inr a \<Rightarrow> Inl ValueError)"
| "unpack2 (p # q # rest) =
     (case py_int p of
        Inl e \<Rightarrow> Inl e
      | Inr a \<Rightarrow>
          (case py_int q of
             Inl e \<Rightarrow> Inl e
           | Inr b \<Rightarrow>
               (case rest of
                  [] \<Rightarrow> Inr (a, b)
                | r # _ \<Rightarrow> (case py_int r of Inl e \<Rightarrow> Inl e | Inr c \<Rightarrow> Inl ValueError))))"

subsection \<open>\<^verbatim>\<open>str(n)\<close> of an integer\<close>

definition digit_char :: "nat \<Rightarrow> char" where
  "digit_char d = char_of (48 + d)"

fun str_nat :: "nat \<Rightarrow> string" where
  "str_nat n = (if n < 10 then [digit_char n] else str_nat (n div 10) @ [digit_char (n mod 10)])"

declare str_nat.simps [simp del]

text \<open>The number that a string of decimal digits denotes, continuing from \<open>acc\<close>.\<close>

definition dec :: "nat \<Rightarrow> string \<Rightarrow> nat" where
  "dec acc ds = foldl (\<lambda>a c. 10 * a + digit_val c) acc ds"

definition py_str :: "int \<Rightarrow> string" where
  "py_str i = (if i < 0 then CHR ''-'' # str_nat (nat (- i)) else str_nat (nat i))"

section \<open>\<^verbatim>\<open>parse_node_range\<close>\<close>

definition parse_node_range :: "nat \<Rightarrow> string \<Rightarrow> py_error + int list" where
  "parse_node_range room node_spec =
     (if CHR ''-'' \<in> set node_spec then
        (case unpack2 (split_on CHR ''-'' node_spec) of
           Inl e \<Rightarrow> Inl e
         | Inr (start, stop) \<Rightarrow> list_of_range room start (stop + 1))
      else
        (case py_int node_spec of
           Inl e \<Rightarrow> Inl e
         | Inr n \<Rightarrow> Inr [n]))"

section \<open>JSON values, requests and responses\<close>

text \<open>
  A decoded JSON value, with a dict as an association list looked up by \<open>map_of\<close>.
  Numbers that are not integers are left out. The same type carries the values of the
  header dict, which holds strings and whatever the login response gave as CSRF token.
\<close>

datatype json =
    JNull
  | JBool bool
  | JInt int
  | JStr string
  | JList "json list"
  | JDict "(string \<times> json) list"

text \<open>\<^verbatim>\<open>value[key]\<close> with a string key: only a dict accepts it.\<close>

fun subscript :: "json \<Rightarrow> string \<Rightarrow> py_error + json" where
  "subscript (JDict kvs) k = (case map_of kvs k of None \<Rightarrow> Inl KeyError | Some v \<Rightarrow> Inr v)"
| "subscript JNull k = Inl TypeError"
| "subscript (JBool b) k = Inl TypeError"
| "subscript (JInt i) k = Inl TypeError"
| "subscript (JStr s) k = Inl TypeError"
| "subscript (JList xs) k = Inl TypeError"

text \<open>\<^verbatim>\<open>d[key] = value\<close> on a dict: an existing key keeps its place, a new one goes last.\<close>

fun dict_set :: "string \<Rightarrow> json \<Rightarrow> (string \<times> json) list \<Rightarrow> (string \<times> json) list" where
  "dict_set k v [] = [(k, v)]"
| "dict_set k v ((k', v') # kvs) =
     (if k' = k then (k, v) # kvs else (k', v') # dict_set k v kvs)"

datatype http_method = GET | POST | PUT

text \<open>
  The payload of a call: none, the form fields of \<^verbatim>\<open>data=\<close>, or the value of \<^verbatim>\<open>json=\<close>.
  \<open>FStrOf v\<close> is the string \<^verbatim>\<open>str(v)\<close> of a decoded value.
\<close>

datatype form_value = FInt int | FStr string | FStrOf json

datatype payload = NoBody | FormData "(string \<times> form_value) list" | JsonBody json

record request =
  req_method :: http_method
  req_url :: string
  req_headers :: "(string \<times> json) list"
  req_body :: payload

text \<open>
  A response, by what the script reads of it: \<^verbatim>\<open>headers["Set-Cookie"]\<close> (None when the
  header is absent), \<^verbatim>\<open>json()\<close> (None when the body does not decode) and \<^verbatim>\<open>text\<close>.
\<close>

record response =
  resp_set_cookie :: "string option"
  resp_json :: "json option"
  resp_text :: string

text \<open>
  The \<^verbatim>\<open>requests\<close> library and the network behind it: given the calls this process
  has made so far and the next call, a response or the exception the call raises.
\<close>

type_synonym env = "request list \<Rightarrow> request \<Rightarrow> py_error + response"

section \<open>Console output\<close>

datatype message =
    UsageLine string
  | ExamplesLine
  | ExampleRange string
  | ExampleSingle string
  | UsingDefault int
  | NodeOutOfRange int
  | InvalidNodeSpec string
  | RateOutOfRange int
  | InvalidRate string int
  | SettingRate int "int list"
  | NodeNotFound int
  | AllCompleted
  | ModeResponse string
  | FanReport nat json
  | FanError py_error
  | Completed string

section \<open>The class \<^verbatim>\<open>Fans\<close>\<close>

text \<open>
  An instance holds what \<^verbatim>\<open>__init__\<close> assigns: host, username and password. The dict
  \<^verbatim>\<open>headers\<close> is created once by the class body and \<^verbatim>\<open>__init__\<close> never assigns
  \<^verbatim>\<open>self.headers\<close>, so \<^verbatim>\<open>self.headers\<close> is the one dict of the class for every instance,
  and \<^verbatim>\<open>self.headers[k] = v\<close> updates that dict. It therefore lives in the state of the
  process, together with the calls made and the lines printed so far.
\<close>

record Fans =
  host :: string
  username :: string
  password :: string

record proc =
  Fans_headers :: "(string \<times> json) list"
  trace :: "request list"
  out :: "message list"

definition user_agent :: string where
  "user_agent = ''Mozilla/5.0 (Windows NT 10.0; Win64; x64) AppleWebKit/537.36 (KHTML, like Gecko) Chrome/108.0.0.0 Safari/537.36 Edg/117.0.2045.60''"

definition initial_headers :: "(string \<times> json) list" where
  "initial_headers =
     [(''content-type'', JStr ''application/json''), (''User-Agent'', JStr user_agent)]"

definition fresh_proc :: proc where
  "fresh_proc = \<lparr>Fans_headers = initial_headers, trace = [], out = []\<rparr>"

definition init_Fans :: "string \<Rightarrow> string \<Rightarrow> string \<Rightarrow> Fans" where
  "init_Fans h u p = \<lparr>host = h, username = u, password = p\<rparr>"

definition send :: "env \<Rightarrow> request \<Rightarrow> proc \<Rightarrow> (py_error + response) \<times> proc" where
  "send env rq s = (env (trace s) rq, s\<lparr>trace := trace s @ [rq]\<rparr>)"

definition print :: "message \<Rightarrow> proc \<Rightarrow> proc" where
  "print m s = s\<lparr>out := out s @ [m]\<rparr>"

definition random_request :: "Fans \<Rightarrow> (string \<times> json) list \<Rightarrow> request" where
  "random_request self hdrs =
     \<lparr>req_method = GET, req_url = ''https://'' @ host self @ ''/api/randomtag'',
      req_headers = hdrs, req_body = NoBody\<rparr>"

definition get_random :: "env \<Rightarrow> Fans \<Rightarrow> proc \<Rightarrow> (py_error + json) \<times> proc" where
  "get_random env self s =
     (let (res, s1) = send env (random_request self (Fans_headers s)) s
      in case res of
           Inl e \<Rightarrow> (Inl e, s1)
         | Inr r \<Rightarrow>
             (case resp_json r of
                None \<Rightarrow> (Inl JSONDecodeError, s1)
              | Some j \<Rightarrow> (subscript j ''random'', s1)))"

subsection \<open>\<^verbatim>\<open>re.findall("QSESSIONID=(.*?);", s)\<close>\<close>

text \<open>
  A match at the head of \<open>s\<close>: the literal \<^verbatim>\<open>QSESSIONID=\<close>, then as few characters as
  possible, none of them a line feed (which \<^verbatim>\<open>.\<close> does not match), up to the first
  semicolon. The result is the group and the text after the match. \<open>findall_session\<close>
  scans from left to right, resumes after each match and returns the groups.
\<close>

definition session_match :: "string \<Rightarrow> (string \<times> string) option" where
  "session_match s =
     (if take 11 s = ''QSESSIONID='' then
        (case dropWhile (\<lambda>c. c \<noteq> CHR '';'' \<and> c \<noteq> CHR 0x0A) (drop 11 s) of
           [] \<Rightarrow> None
         | c # rest \<Rightarrow>
             if c = CHR '';''
             then Some (takeWhile (\<lambda>c. c \<noteq> CHR '';'' \<and> c \<noteq> CHR 0x0A) (drop 11 s), rest)
             else None)
      else None)"

function findall_session :: "string \<Rightarrow> string list" where
  "findall_session s =
     (case session_match s of
        Some (tok, rest) \<Rightarrow> tok # findall_session rest
      | None \<Rightarrow> (case s of [] \<Rightarrow> [] | c # cs \<Rightarrow> findall_session cs))"
  by pat_completeness auto
termination
proof (relation "measure length")
  show "wf (measure length)" by simp
next
  fix s :: string and x2 tok rest
  assume m: "session_match s = Some x2" and x: "(tok, rest) = x2"
  from m x have d: "dropWhile (\<lambda>c. c \<noteq> CHR '';'' \<and> c \<noteq> CHR 0x0A) (drop 11 s) = CHR '';'' # rest"
    by (auto simp: session_match_def split: if_splits list.splits)
  have "length (dropWhile (\<lambda>c. c \<noteq> CHR '';'' \<and> c \<noteq> CHR 0x0A) (drop 11 s)) \<le> length (drop 11 s)"
    by (rule length_dropWhile_le)
  with d have "length rest < length s" by simp
  then show "(rest, s) \<in> measure length" by simp
next
  fix s :: string and c cs
  assume "s = c # cs"
  then show "(cs, s) \<in> measure length" by simp
qed

declare findall_session.simps [simp del]

text \<open>\<^verbatim>\<open>xs[0]\<close>\<close>

fun item0 :: "'a list \<Rightarrow> py_error + 'a" where
  "item0 [] = Inl IndexError"
| "item0 (x # xs) = Inr x"

subsection \<open>\<^verbatim>\<open>get_session\<close> and \<^verbatim>\<open>fans_mode\<close>\<close>

text \<open>
  The call that \<^verbatim>\<open>get_session\<close> makes, with the header dict as it is at that moment
  (the content type already set for a form).
\<close>

definition session_request :: "Fans \<Rightarrow> (string \<times> json) list \<Rightarrow> json \<Rightarrow> request" where
  "session_request self hdrs random_string =
     \<lparr>req_method = POST, req_url = ''https://'' @ host self @ ''/api/session'',
      req_headers = hdrs,
      req_body = FormData [(''encrypt_flag'', FInt 0),
                           (''username'', FStr (username self)),
                           (''password'', FStr (password self)),
                           (''login_tag'', FStrOf random_string)]\<rparr>"

definition session_cookie :: "string \<Rightarrow> string" where
  "session_cookie token = ''lang=zh-cn;QSESSIONID='' @ token @ ''; refresh_disable=1''"

definition get_session :: "env \<Rightarrow> Fans \<Rightarrow> json \<Rightarrow> proc \<Rightarrow> (py_error + unit) \<times> proc" where
  "get_session env self random_string s =
     (let s0 = s\<lparr>Fans_headers := dict_set ''content-type''
                   (JStr ''application/x-www-form-urlencoded; charset=UTF-8'') (Fans_headers s)\<rparr>;
          (res, s1) = send env (session_request self (Fans_headers s0) random_string) s0
      in case res of
           Inl e \<Rightarrow> (Inl e, s1)
         | Inr response \<Rightarrow>
             (case resp_set_cookie response of
                None \<Rightarrow> (Inl KeyError, s1)
              | Some set_cookie \<Rightarrow>
                  (case item0 (findall_session set_cookie) of
                     Inl e \<Rightarrow> (Inl e, s1)
                   | Inr token \<Rightarrow>
                       (case resp_json response of
                          None \<Rightarrow> (Inl JSONDecodeError, s1)
                        | Some j \<Rightarrow>
                            (case subscript j ''CSRFToken'' of
                               Inl e \<Rightarrow> (Inl e, s1)
                             | Inr csrf \<Rightarrow>
                                 (Inr (),
                                  s1\<lparr>Fans_headers :=
                                       dict_set ''content-type'' (JStr ''application/json'')
                                         (dict_set ''Cookie'' (JStr (session_cookie token))
                                            (dict_set ''X-Csrftoken'' csrf
                                               (Fans_headers s1)))\<rparr>))))))"

definition mode_request :: "Fans \<Rightarrow> (string \<times> json) list \<Rightarrow> string \<Rightarrow> request" where
  "mode_request self hdrs mode =
     \<lparr>req_method = PUT, req_url = ''https://'' @ host self @ ''/api/settings/fans-mode'',
      req_headers = hdrs, req_body = JsonBody (JDict [(''control_mode'', JStr mode)])\<rparr>"

definition fans_mode :: "env \<Rightarrow> Fans \<Rightarrow> string \<Rightarrow> proc \<Rightarrow> (py_error + unit) \<times> proc" where
  "fans_mode env self mode s =
     (let (res, s1) = send env (mode_request self (Fans_headers s) mode) s
      in case res of
           Inl e \<Rightarrow> (Inl e, s1)
         | Inr response \<Rightarrow> (Inr (), print (ModeResponse (resp_text response)) s1))"

subsection \<open>\<^verbatim>\<open>change_fans\<close>\<close>

text \<open>
  The task \<^verbatim>\<open>change_single_fan(fan_index)\<close> makes one call (\<open>fan_request\<close>), reads the
  duty back from the response (\<open>read_duty\<close>), prints it and returns. An exception of the
  call or of the reading is kept by the task's future. The task sets the encoding of the
  response to UTF-8 before it reads the body; \<open>resp_json\<close> is what \<^verbatim>\<open>json()\<close> returns then.
\<close>

definition fan_url :: "Fans \<Rightarrow> nat \<Rightarrow> string" where
  "fan_url self fan_index =
     ''https://'' @ host self @ ''/api/settings/fan/'' @ py_str (int fan_index)"

definition fan_request :: "Fans \<Rightarrow> (string \<times> json) list \<Rightarrow> int \<Rightarrow> nat \<Rightarrow> request" where
  "fan_request self hdrs rate fan_index =
     \<lparr>req_method = PUT, req_url = fan_url self fan_index, req_headers = hdrs,
      req_body = JsonBody (JDict [(''duty'', JInt rate)])\<rparr>"

definition read_duty :: "py_error + response \<Rightarrow> py_error + json" where
  "read_duty res =
     (case res of
        Inl e \<Rightarrow> Inl e
      | Inr response \<Rightarrow>
          (case resp_json response of
             None \<Rightarrow> Inl JSONDecodeError
           | Some j \<Rightarrow> subscript j ''duty''))"

text \<open>
  \<^verbatim>\<open>ThreadPoolExecutor(max_workers=n)\<close> gives a pool of \<open>n\<close> worker threads and refuses a
  size that is not positive.
\<close>

definition ThreadPoolExecutor :: "int \<Rightarrow> py_error + nat" where
  "ThreadPoolExecutor max_workers =
     (if max_workers \<le> 0 then Inl ValueError else Inr (nat max_workers))"

text \<open>
  The submitted tasks wait in a queue, and a worker that is free takes the first of
  them. So the tasks that can make the next call are the first \<open>workers\<close> tasks that
  have not run yet; which of those goes next is up to the threads. A schedule settles
  it: it lists task indices in order of precedence, the ready task that is listed first
  goes next, and when none of the ready tasks is listed, the one submitted first.
  \<open>run_order\<close> is the order in which the queued tasks run under a schedule. Whatever
  the schedule lists, the tasks that run are those of the queue.
\<close>

definition next_task :: "nat list \<Rightarrow> nat list \<Rightarrow> nat" where
  "next_task prefs ready =
     (case filter (\<lambda>i. i \<in> set ready) prefs of
        [] \<Rightarrow> hd ready
      | i # _ \<Rightarrow> i)"

function run_order :: "nat \<Rightarrow> nat list \<Rightarrow> nat list \<Rightarrow> nat list" where
  "run_order workers prefs queue =
     (if workers = 0 \<or> queue = [] then []
      else next_task prefs (take workers queue)
             # run_order workers prefs (remove1 (next_task prefs (take workers queue)) queue))"
  by pat_completeness auto
termination
proof (relation "measure (\<lambda>(workers, prefs, queue). length queue)")
  show "wf (measure (\<lambda>(workers, prefs, queue). length queue))" by simp
next
  fix workers :: nat and prefs queue :: "nat list"
  assume a: "\<not> (workers = 0 \<or> queue = [])"
  let ?ready = "take workers queue"
  from a have ne: "?ready \<noteq> []" by simp
  have "next_task prefs ?ready \<in> set ?ready"
  proof (cases "filter (\<lambda>i. i \<in> set ?ready) prefs")
    case Nil
    then have "next_task prefs ?ready = hd ?ready" by (simp only: next_task_def list.case)
    with hd_in_set [OF ne] show ?thesis by (simp only:)
  next
    case (Cons i rest)
    then have "i \<in> set (filter (\<lambda>i. i \<in> set ?ready) prefs)" by simp
    moreover from Cons have "next_task prefs ?ready = i" by (simp only: next_task_def list.case)
    ultimately show ?thesis by simp
  qed
  then have "next_task prefs ?ready \<in> set queue" by (rule in_set_takeD)
  then have "length (remove1 (next_task prefs ?ready) queue) < length queue"
    by (simp add: length_remove1) (cases queue; simp)
  then show "((workers, prefs, remove1 (next_task prefs (take workers queue)) queue),
              (workers, prefs, queue)) \<in> measure (\<lambda>(workers, prefs, queue). length queue)"
    by simp
qed

declare run_order.simps [simp del]

text \<open>
  A schedule has one list for the calls and one for the printed lines. It is a schedule
  for \<open>n\<close> tasks when each list holds every index below \<open>n\<close> once; the tasks then run
  and print in exactly the listed orders.
\<close>

record sched =
  arrival :: "nat list"
  reported :: "nat list"

definition is_schedule :: "nat \<Rightarrow> sched \<Rightarrow> bool" where
  "is_schedule n sch \<longleftrightarrow>
     distinct (arrival sch) \<and> set (arrival sch) = {0..<n} \<and>
     distinct (reported sch) \<and> set (reported sch) = {0..<n}"

fun put_fans ::
  "env \<Rightarrow> Fans \<Rightarrow> int \<Rightarrow> nat list \<Rightarrow> proc \<Rightarrow> (nat \<times> (py_error + json)) list \<times> proc" where
  "put_fans env self rate [] s = ([], s)"
| "put_fans env self rate (i # rest) s =
     (case send env (fan_request self (Fans_headers s) rate i) s of
        (res, s1) \<Rightarrow>
          (case put_fans env self rate rest s1 of
             (results, s2) \<Rightarrow> ((i, read_duty res) # results, s2)))"

definition fan_line :: "nat \<Rightarrow> py_error + json \<Rightarrow> message" where
  "fan_line i r = (case r of Inl e \<Rightarrow> FanError e | Inr duty \<Rightarrow> FanReport i duty)"

definition task_line :: "(nat \<times> (py_error + json)) list \<Rightarrow> nat \<Rightarrow> message list" where
  "task_line results i =
     (case map_of results i of
        None \<Rightarrow> []
      | Some r \<Rightarrow> [fan_line i r])"

text \<open>
  \<^verbatim>\<open>change_fans\<close> makes a pool of \<open>fans\<close> workers and submits one task for each index
  of \<^verbatim>\<open>range(fans)\<close>. The schedule gives the order of the calls and, apart from it, the
  order of the lines: a task prints its report itself, and the line for a future that
  holds an exception is printed by the loop over \<^verbatim>\<open>as_completed\<close>, so with as many
  workers as tasks the lines can come in any order.
\<close>

definition change_fans ::
  "env \<Rightarrow> sched \<Rightarrow> Fans \<Rightarrow> int \<Rightarrow> int \<Rightarrow> proc \<Rightarrow> (py_error + unit) \<times> proc" where
  "change_fans env sch self rate fans s =
     (case ThreadPoolExecutor fans of
        Inl e \<Rightarrow> (Inl e, s)
      | Inr workers \<Rightarrow>
          (let tasks = [0..<nat fans] in
           case put_fans env self rate (run_order workers (arrival sch) tasks) s of
             (results, s1) \<Rightarrow>
               (Inr (),
                s1\<lparr>out := out s1 @ concat (map (task_line results)
                                            (run_order (length tasks) (reported sch) tasks))\<rparr>)))"

text \<open>
  What the task of fan \<open>i\<close> gets, given the order \<open>arr\<close> in which the calls are made:
  the calls made before its own are those of the tasks that come before \<open>i\<close> in
  \<open>arr\<close>, and the duty is read from the answer to its own call.
\<close>

definition fan_outcome ::
  "env \<Rightarrow> Fans \<Rightarrow> int \<Rightarrow> nat list \<Rightarrow> proc \<Rightarrow> nat \<Rightarrow> py_error + json" where
  "fan_outcome env self rate arr s i =
     read_duty
       (env (trace s @ map (fan_request self (Fans_headers s) rate) (takeWhile (\<lambda>j. j \<noteq> i) arr))
            (fan_request self (Fans_headers s) rate i))"

text \<open>A server that answers each call with the JSON value it was sent.\<close>

definition echoes :: "env \<Rightarrow> bool" where
  "echoes env \<longleftrightarrow>
     (\<forall>hist rq j. req_body rq = JsonBody j \<longrightarrow>
        (\<exists>r. env hist rq = Inr r \<and> resp_json r = Some j))"

section \<open>\<^verbatim>\<open>control_fan\<close>\<close>

definition control_fan ::
  "env \<Rightarrow> sched \<Rightarrow> string \<Rightarrow> string \<Rightarrow> string \<Rightarrow> int \<Rightarrow> int \<Rightarrow> proc
     \<Rightarrow> (py_error + unit) \<times> proc" where
  "control_fan env sch h u p rate fans s =
     (let node_f = init_Fans h u p in
      case get_random env node_f s of
        (Inl e, s1) \<Rightarrow> (Inl e, s1)
      | (Inr random_string, s1) \<Rightarrow>
          (case get_session env node_f random_string s1 of
             (Inl e, s2) \<Rightarrow> (Inl e, s2)
           | (Inr _, s2) \<Rightarrow>
               (case fans_mode env node_f ''manual'' s2 of
                  (Inl e, s3) \<Rightarrow> (Inl e, s3)
                | (Inr _, s3) \<Rightarrow>
                    (case change_fans env sch node_f rate fans s3 of
                       (Inl e, s4) \<Rightarrow> (Inl e, s4)
                     | (Inr _, s4) \<Rightarrow> (Inr (), print (Completed h) s4)))))"

section \<open>\<^verbatim>\<open>main\<close>\<close>

text \<open>
  \<^verbatim>\<open>sys.argv\<close> is the program name \<open>prog\<close> followed by the arguments \<open>args\<close>. The
  handling of the two arguments is written as two functions, one for each
  \<^verbatim>\<open>try\<close> block of \<^verbatim>\<open>main\<close>; each takes the value the variable has before the block
  and returns the value after it with the lines printed. \<^verbatim>\<open>except ValueError\<close> catches
  ValueError and lets any other exception through, which ends \<^verbatim>\<open>main\<close>. \<open>room\<close> is
  the room the machine has for the list that the node argument asks for; the list of
  the five default nodes is taken to fit.
\<close>

definition node_hosts :: "(int \<times> string) list" where
  "node_hosts =
     [(1, ''IP_ADDRESS''), (2, ''IP_ADDRESS''), (3, ''IP_ADDRESS''),
      (4, ''IP_ADDRESS''), (5, ''IP_ADDRESS'')]"

fun warn_nodes :: "int list \<Rightarrow> message list" where
  "warn_nodes [] = []"
| "warn_nodes (node # rest) =
     (if node < 1 \<or> node > 5 then NodeOutOfRange node # warn_nodes rest
      else warn_nodes rest)"

definition nodes_block ::
  "nat \<Rightarrow> string \<Rightarrow> int list \<Rightarrow> py_error + (int list \<times> message list)" where
  "nodes_block room arg nodes_to_control =
     (case parse_node_range room arg of
        Inr parsed \<Rightarrow> Inr (filter (\<lambda>n. 1 \<le> n \<and> n \<le> 5) parsed, warn_nodes parsed)
      | Inl e \<Rightarrow>
          if e = ValueError then Inr (nodes_to_control, [InvalidNodeSpec arg]) else Inl e)"

definition rate_block :: "string \<Rightarrow> int \<Rightarrow> py_error + (int \<times> message list)" where
  "rate_block arg rate =
     (case py_int arg of
        Inr r \<Rightarrow> Inr (r, if r < 0 \<or> r > 100 then [RateOutOfRange r] else [])
      | Inl e \<Rightarrow>
          if e = ValueError then Inr (rate, [InvalidRate arg rate]) else Inl e)"

record settings =
  st_nodes :: "int list"
  st_rate :: int
  st_printed :: "message list"

definition parse_args :: "nat \<Rightarrow> string \<Rightarrow> string list \<Rightarrow> py_error + settings" where
  "parse_args room prog args =
     (let rate0 = 20; nodes0 = py_range 1 6 in
      case args of
        [] \<Rightarrow>
          Inr \<lparr>st_nodes = nodes0, st_rate = rate0,
               st_printed = [UsageLine prog, ExamplesLine, ExampleRange prog,
                             ExampleSingle prog, UsingDefault rate0]\<rparr>
      | node_arg # others \<Rightarrow>
          (case nodes_block room node_arg nodes0 of
             Inl e \<Rightarrow> Inl e
           | Inr (nodes, w1) \<Rightarrow>
               (case others of
                  [] \<Rightarrow> Inr \<lparr>st_nodes = nodes, st_rate = rate0, st_printed = w1\<rparr>
                | rate_arg # _ \<Rightarrow>
                    (case rate_block rate_arg rate0 of
                       Inl e \<Rightarrow> Inl e
                     | Inr (r, w2) \<Rightarrow>
                         Inr \<lparr>st_nodes = nodes, st_rate = r, st_printed = w1 @ w2\<rparr>))))"

text \<open>
  The loop that resolves node numbers: \<^verbatim>\<open>node_hosts.get(node_num)\<close>, and a host that is
  missing or empty is reported instead of used.
\<close>

fun resolve_hosts :: "int list \<Rightarrow> string list \<times> message list" where
  "resolve_hosts [] = ([], [])"
| "resolve_hosts (node_num # rest) =
     (case resolve_hosts rest of
        (hosts, msgs) \<Rightarrow>
          (case map_of node_hosts node_num of
             None \<Rightarrow> (hosts, NodeNotFound node_num # msgs)
           | Some h \<Rightarrow>
               if h \<noteq> [] then (h # hosts, msgs) else (hosts, NodeNotFound node_num # msgs)))"

text \<open>
  One process per resolved host runs \<^verbatim>\<open>control_fan\<close>. A process has its own memory, so
  each worker starts from the state the module has after import, and has its own view
  of the network and its own schedule, given by its position in the list of hosts. An
  exception that leaves \<^verbatim>\<open>control_fan\<close> ends that process only. The result of \<^verbatim>\<open>main\<close>
  is what the parent printed and, for each worker, how it ended.
\<close>

definition run_workers ::
  "(nat \<Rightarrow> env) \<Rightarrow> (nat \<Rightarrow> sched) \<Rightarrow> string list \<Rightarrow> int \<Rightarrow> int
     \<Rightarrow> ((py_error + unit) \<times> proc) list" where
  "run_workers envs scheds hosts r fans =
     map (\<lambda>(j, h). control_fan (envs j) (scheds j) h ''admin'' ''admin'' r fans fresh_proc)
       (enumerate 0 hosts)"

definition main ::
  "nat \<Rightarrow> (nat \<Rightarrow> env) \<Rightarrow> (nat \<Rightarrow> sched) \<Rightarrow> string \<Rightarrow> string list
     \<Rightarrow> py_error + (message list \<times> ((py_error + unit) \<times> proc) list)" where
  "main room envs scheds prog args =
     (case parse_args room prog args of
        Inl e \<Rightarrow> Inl e
      | Inr st \<Rightarrow>
          (let fans = 12 in
           case resolve_hosts (st_nodes st) of
             (hosts, msgs) \<Rightarrow>
               Inr (st_printed st @ [SettingRate (st_rate st) (st_nodes st)] @ msgs
                      @ [AllCompleted],
                    run_workers envs scheds hosts (st_rate st) fans)))"

section \<open>Sample responses\<close>

text \<open>Responses of a controller, used to run the functions on concrete inputs.\<close>

definition login_response :: response where
  "login_response =
     \<lparr>resp_set_cookie = Some ''lang=en; QSESSIONID=abc123; path=/'',
      resp_json = Some (JDict [(''ok'', JInt 0), (''CSRFToken'', JStr ''x9'')]),
      resp_text = ''ok''\<rparr>"

definition stale_response :: response where
  "stale_response =
     \<lparr>resp_set_cookie = Some ''lang=en; path=/'',
      resp_json = Some (JDict [(''ok'', JInt 0), (''CSRFToken'', JStr ''x9'')]),
      resp_text = ''ok''\<rparr>"

definition echo_env :: env where
  "echo_env hist rq =
     Inr \<lparr>resp_set_cookie = None,
          resp_json = (case req_body rq of JsonBody j \<Rightarrow> Some j | _ \<Rightarrow> None),
          resp_text = ''ok''\<rparr>"

definition bmc1 :: Fans where
  "bmc1 = init_Fans ''bmc1'' ''admin'' ''admin''"

definition three_fans :: sched where
  "three_fans = \<lparr>arrival = [2, 0, 1], reported = [1, 2, 0]\<rparr>"

definition flaky_env :: env where
  "flaky_env hist rq =
     (if req_url rq = ''https://bmc1/api/settings/fan/1''
      then Inl (RequestException ''timed out'')
      else echo_env hist rq)"

definition bmc_env :: env where
  "bmc_env hist rq =
     (if req_method rq = GET then
        Inr \<lparr>resp_set_cookie = None,
             resp_json = Some (JDict [(''random'', JStr ''r1'')]),
             resp_text = ''ok''\<rparr>
      else if req_method rq = POST then Inr login_response
      else flaky_env hist rq)"

definition stale_env :: env where
  "stale_env hist rq =
     (if req_method rq = POST then Inr stale_response else bmc_env hist rq)"

definition plain_response :: response where
  "plain_response =
     \<lparr>resp_set_cookie = Some ''lang=en; QSESSIONID=abc123; path=/'',
      resp_json = Some (JDict [(''ok'', JInt 0)]),
      resp_text = ''ok''\<rparr>"

definition down_env :: env where
  "down_env hist rq = Inl (RequestException ''refused'')"

definition mode_down_env :: env where
  "mode_down_env hist rq =
     (if req_method rq = PUT then Inl (RequestException ''refused'') else bmc_env hist rq)"

text \<open>
  For a run of \<^verbatim>\<open>main\<close>: every controller is down and every pool takes its tasks in
  the order in which they were submitted.
\<close>

definition all_down :: "nat \<Rightarrow> env" where
  "all_down j = down_env"

definition in_turn :: "nat \<Rightarrow> sched" where
  "in_turn j = \<lparr>arrival = [], reported = []\<rparr>"

section \<open>Facts about parsing\<close>

lemma split_on_no_sep: "sep \<notin> set s \<Longrightarrow> split_on sep s = [s]"
  by (induction s) auto

lemma split_on_append: "sep \<notin> set s \<Longrightarrow> split_on sep (s @ sep # t) = s # split_on sep t"
  by (induction s) auto

lemma py_range_succ: "py_range a (b + 1) = [a..b]"
  by (simp add: py_range_def)

lemma list_of_range_fits:
  "b + 1 - a \<le> ssize_t_max \<Longrightarrow> b + 1 - a \<le> int room \<Longrightarrow>
   list_of_range room a (b + 1) = Inr [a..b]"
  by (simp add: list_of_range_def py_range_succ ssize_t_max_def)

lemma list_of_range_too_long:
  "ssize_t_max < b + 1 - a \<Longrightarrow> list_of_range room a (b + 1) = Inl OverflowError"
  by (simp add: list_of_range_def ssize_t_max_def)


lemma digit_char_is_digit: "d < 10 \<Longrightarrow> is_digit (digit_char d)"
  by (simp add: is_digit_def digit_char_def)

lemma digit_val_digit_char: "d < 10 \<Longrightarrow> digit_val (digit_char d) = d"
  by (simp add: digit_val_def digit_char_def)

lemma is_digit_not_space: "is_digit c \<Longrightarrow> \<not> py_isspace c"
  by (auto simp: is_digit_def py_isspace_def)

lemma is_digit_not_sign: "is_digit c \<Longrightarrow> c \<noteq> CHR ''-'' \<and> c \<noteq> CHR ''+'' \<and> c \<noteq> CHR ''_''"
  by (auto simp: is_digit_def)

lemma digits_from_all_digits:
  "\<forall>c \<in> set ds. is_digit c \<Longrightarrow> digits_from acc ds = Inr (dec acc ds)"
  by (induction acc ds rule: digits_from.induct) (auto simp: dec_def)

lemma str_nat_digits: "\<forall>c \<in> set (str_nat n). is_digit c"
proof (induction n rule: str_nat.induct)
  case (1 n)
  show ?case
  proof (cases "n < 10")
    case True
    then show ?thesis by (subst str_nat.simps) (simp add: digit_char_is_digit)
  next
    case False
    with 1 show ?thesis by (subst str_nat.simps) (simp add: digit_char_is_digit)
  qed
qed

lemma str_nat_nonempty: "str_nat n \<noteq> []"
  by (subst str_nat.simps) simp

lemma dec_str_nat: "dec 0 (str_nat n) = n"
proof (induction n rule: str_nat.induct)
  case (1 n)
  show ?case
  proof (cases "n < 10")
    case True
    then show ?thesis by (subst str_nat.simps) (simp add: dec_def digit_val_digit_char)
  next
    case False
    with 1 have "dec 0 (str_nat (n div 10)) = n div 10" by simp
    with False show ?thesis
      by (subst str_nat.simps) (simp add: dec_def digit_val_digit_char)
  qed
qed

text \<open>The decimal numeral of a number below \<open>10 ^ k\<close> has at most \<open>k\<close> digits, and
  that of a number from \<open>10 ^ k\<close> on has more.\<close>

lemma str_nat_short: "0 < k \<Longrightarrow> n < 10 ^ k \<Longrightarrow> length (str_nat n) \<le> k"
proof (induction n arbitrary: k rule: str_nat.induct)
  case (1 n)
  show ?case
  proof (cases "n < 10")
    case True
    with "1.prems" show ?thesis by (subst str_nat.simps) simp
  next
    case False
    with "1.prems" obtain j where k: "k = Suc j" by (cases k) auto
    with False "1.prems" have j: "0 < j" by (cases j) auto
    from "1.prems" k have "n div 10 < 10 ^ j"
      by (simp add: less_mult_imp_div_less mult.commute)
    from "1.IH" [OF False j this] have "length (str_nat (n div 10)) \<le> j" .
    with False k show ?thesis by (subst str_nat.simps) simp
  qed
qed

lemma str_nat_long: "10 ^ k \<le> n \<Longrightarrow> k < length (str_nat n)"
proof (induction n arbitrary: k rule: str_nat.induct)
  case (1 n)
  show ?case
  proof (cases "n < 10")
    case True
    have "k = 0"
    proof (cases k)
      case 0
      then show ?thesis .
    next
      case (Suc j)
      have "(1::nat) \<le> 10 ^ j" by simp
      with "1.prems" True Suc show ?thesis by simp
    qed
    with True show ?thesis by (subst str_nat.simps) simp
  next
    case False
    show ?thesis
    proof (cases k)
      case 0
      with False show ?thesis by (subst str_nat.simps) simp
    next
      case (Suc j)
      with "1.prems" have "10 ^ j \<le> n div 10"
        by (simp add: less_eq_div_iff_mult_less_eq mult.commute)
      from "1.IH" [OF False this] have "j < length (str_nat (n div 10))" .
      with False Suc show ?thesis by (subst str_nat.simps) simp
    qed
  qed
qed

lemma parse_digits_all_digits:
  "s \<noteq> [] \<Longrightarrow> \<forall>c \<in> set s. is_digit c \<Longrightarrow> length s \<le> int_max_str_digits \<Longrightarrow>
   parse_digits s = Inr (dec 0 s)"
proof -
  assume ne: "s \<noteq> []" and dg: "\<forall>c \<in> set s. is_digit c" and ln: "length s \<le> int_max_str_digits"
  from dg have f: "filter is_digit s = s" by (simp add: filter_id_conv)
  from ne obtain c cs where s: "s = c # cs" by (cases s) auto
  with dg have c: "is_digit c" and cs: "\<forall>c \<in> set cs. is_digit c" by simp_all
  have "parse_digits s =
      (if int_max_str_digits < length (filter is_digit s) then Inl ValueError
       else digits_from (digit_val c) cs)"
    using c by (simp add: parse_digits_def s del: filter.simps)
  with f ln have "parse_digits s = digits_from (digit_val c) cs" by simp
  with cs show ?thesis by (simp add: digits_from_all_digits dec_def s)
qed

lemma parse_digits_too_long:
  "\<forall>c \<in> set s. is_digit c \<Longrightarrow> int_max_str_digits < length s \<Longrightarrow>
   parse_digits s = Inl ValueError"
proof -
  assume dg: "\<forall>c \<in> set s. is_digit c" and ln: "int_max_str_digits < length s"
  from dg have f: "filter is_digit s = s" by (simp add: filter_id_conv)
  from ln obtain c cs where s: "s = c # cs" by (cases s) auto
  with dg have c: "is_digit c" by simp
  have "parse_digits s =
      (if int_max_str_digits < length (filter is_digit s) then Inl ValueError
       else digits_from (digit_val c) cs)"
    using c by (simp add: parse_digits_def s del: filter.simps)
  with f ln show ?thesis by simp
qed

lemma dropWhile_id: "s = [] \<or> \<not> P (hd s) \<Longrightarrow> dropWhile P s = s"
  by (cases s) auto

lemma strip_id: "s \<noteq> [] \<Longrightarrow> \<not> py_isspace (hd s) \<Longrightarrow> \<not> py_isspace (last s) \<Longrightarrow> strip s = s"
  by (simp add: strip_def dropWhile_id hd_rev)

lemma strip_digits: "s \<noteq> [] \<Longrightarrow> \<forall>c \<in> set s. is_digit c \<Longrightarrow> strip s = s"
proof -
  assume ne: "s \<noteq> []" and dg: "\<forall>c \<in> set s. is_digit c"
  from ne dg have "is_digit (hd s)" and "is_digit (last s)" by simp_all
  with ne show ?thesis by (intro strip_id) (simp_all add: is_digit_not_space)
qed

lemma py_int_digits:
  assumes "s \<noteq> []" and "\<forall>c \<in> set s. is_digit c"
  shows "py_int s = map_sum id int (parse_digits s)"
proof -
  from assms obtain c cs where s: "s = c # cs" by (cases s) auto
  with assms(2) have c: "is_digit c" by simp
  from strip_digits [OF assms] s c is_digit_not_sign [OF c] show ?thesis
    by (simp add: py_int_def)
qed

lemma py_int_str_nat: "n < 10 ^ int_max_str_digits \<Longrightarrow> py_int (str_nat n) = Inr (int n)"
proof -
  assume small: "n < 10 ^ int_max_str_digits"
  have pos: "0 < int_max_str_digits" by (simp add: int_max_str_digits_def)
  from pos small have "length (str_nat n) \<le> int_max_str_digits" by (rule str_nat_short)
  from parse_digits_all_digits [OF str_nat_nonempty str_nat_digits this]
  have "parse_digits (str_nat n) = Inr n" by (simp add: dec_str_nat)
  with py_int_digits [OF str_nat_nonempty str_nat_digits, of n] show ?thesis by simp
qed

lemma py_int_str_nat_too_long:
  "10 ^ int_max_str_digits \<le> n \<Longrightarrow> py_int (str_nat n) = Inl ValueError"
proof -
  assume "10 ^ int_max_str_digits \<le> n"
  then have "int_max_str_digits < length (str_nat n)" by (rule str_nat_long)
  from parse_digits_too_long [OF str_nat_digits this]
    py_int_digits [OF str_nat_nonempty str_nat_digits, of n]
  show ?thesis by simp
qed

lemma py_int_too_long:
  "\<forall>c \<in> set s. is_digit c \<Longrightarrow> int_max_str_digits < length s \<Longrightarrow> py_int s = Inl ValueError"
proof -
  assume dg: "\<forall>c \<in> set s. is_digit c" and ln: "int_max_str_digits < length s"
  then have ne: "s \<noteq> []" by auto
  from parse_digits_too_long [OF dg ln] py_int_digits [OF ne dg] show ?thesis by simp
qed

lemma str_nat_no_dash: "CHR ''-'' \<notin> set (str_nat n)"
  using str_nat_digits is_digit_not_sign by blast

lemma str_nat_inj:
  assumes "str_nat m = str_nat n"
  shows "m = n"
proof -
  have "m = dec 0 (str_nat m)" by (simp only: dec_str_nat)
  also have "\<dots> = dec 0 (str_nat n)" by (simp only: assms)
  also have "\<dots> = n" by (simp only: dec_str_nat)
  finally show ?thesis .
qed

lemma digits_from_raises: "digits_from acc s = Inl e \<Longrightarrow> e = ValueError"
  by (induction acc s rule: digits_from.induct) (auto split: if_splits)

lemma parse_digits_raises: "parse_digits s = Inl e \<Longrightarrow> e = ValueError"
  by (auto simp: parse_digits_def split: list.splits if_splits dest: digits_from_raises)

lemma py_int_raises: "py_int s = Inl e \<Longrightarrow> e = ValueError"
  by (auto simp: py_int_def map_sum_def split: list.splits if_splits sum.splits
      dest: parse_digits_raises)


lemmas py_int_eval =
  py_int_def strip_def py_isspace_def parse_digits_def is_digit_def digit_val_def
  int_max_str_digits_def

lemma parse_single:
  "CHR ''-'' \<notin> set s \<Longrightarrow> parse_node_range room s = map_sum id (\<lambda>n. [n]) (py_int s)"
  by (simp add: parse_node_range_def split: sum.split)

lemma parse_pair:
  assumes "CHR ''-'' \<notin> set sa" and "CHR ''-'' \<notin> set sb"
    and "py_int sa = Inr a" and "py_int sb = Inr b"
  shows "parse_node_range room (sa @ ''-'' @ sb) = list_of_range room a (b + 1)"
  using assms by (simp add: parse_node_range_def split_on_append split_on_no_sep)

lemma parse_pair_bad_first:
  assumes "CHR ''-'' \<notin> set sa" and "CHR ''-'' \<notin> set sb" and "py_int sa = Inl e"
  shows "parse_node_range room (sa @ ''-'' @ sb) = Inl e"
  using assms by (simp add: parse_node_range_def split_on_append split_on_no_sep)



lemma nodes_block_ok:
  "parse_node_range room arg = Inr parsed \<Longrightarrow>
   nodes_block room arg d = Inr (filter (\<lambda>n. 1 \<le> n \<and> n \<le> 5) parsed, warn_nodes parsed)"
  by (simp add: nodes_block_def)

lemma nodes_block_fallback:
  "parse_node_range room arg = Inl ValueError \<Longrightarrow>
   nodes_block room arg d = Inr (d, [InvalidNodeSpec arg])"
  by (simp add: nodes_block_def)


lemma rate_block_cases:
  "rate_block arg r0 =
     (case py_int arg of
        Inl e \<Rightarrow> Inr (r0, [InvalidRate arg r0])
      | Inr r \<Rightarrow> Inr (r, if r < 0 \<or> r > 100 then [RateOutOfRange r] else []))"
  by (auto simp: rate_block_def split: sum.splits dest: py_int_raises)

lemma set_warn_nodes: "set (warn_nodes ns) = NodeOutOfRange ` {n \<in> set ns. n < 1 \<or> n > 5}"
  by (induction ns) auto

lemma warn_nodes_eq: "warn_nodes ns = map NodeOutOfRange (filter (\<lambda>n. n < 1 \<or> n > 5) ns)"
  by (induction ns) auto

lemma default_nodes: "py_range 1 6 = [1, 2, 3, 4, 5]"
  by (simp add: py_range_def upto.simps)

lemma resolve_hosts_in_range:
  "\<forall>n \<in> set ns. 1 \<le> n \<and> n \<le> 5 \<Longrightarrow>
   resolve_hosts ns = (map (\<lambda>n. ''IP_ADDRESS'') ns, [])"
proof (induction ns)
  case Nil
  then show ?case by simp
next
  case (Cons n ns)
  then have "n = 1 \<or> n = 2 \<or> n = 3 \<or> n = 4 \<or> n = 5" by auto
  with Cons show ?case by (auto simp: node_hosts_def)
qed

lemma py_str_nat: "py_str (int k) = str_nat k"
  by (simp add: py_str_def)

lemma long_numeral:
  "py_int (CHR ''1'' # replicate int_max_str_digits CHR ''0'') = Inl ValueError"
  "CHR ''-'' \<notin> set (CHR ''1'' # replicate int_max_str_digits CHR ''0'')"
proof -
  let ?s = "CHR ''1'' # replicate int_max_str_digits CHR ''0''"
  have "\<forall>c \<in> set ?s. is_digit c" by (auto simp: is_digit_def)
  moreover have "int_max_str_digits < length ?s" by simp
  ultimately show "py_int ?s = Inl ValueError" by (rule py_int_too_long)
  show "CHR ''-'' \<notin> set ?s" by auto
qed

section \<open>Node specifications\<close>

text \<open>
  C5 as stated fails for numbers that the interpreter does not take. The text
  \<^verbatim>\<open>1-100000000000000000000\<close> has two numbers that \<^verbatim>\<open>int\<close> accepts, but the range
  between them is longer than a list can be and \<^verbatim>\<open>parse_node_range\<close> raises
  OverflowError. The digit 1 followed by 4300 zeros is a numeral of 4301 digits:
  \<^verbatim>\<open>int\<close> raises ValueError for it and so does \<^verbatim>\<open>parse_node_range\<close>.
\<close>

theorem parse_node_range_forms_counterexample:
  "py_int ''1'' = Inr 1 \<and>
   py_int ''100000000000000000000'' = Inr 100000000000000000000 \<and>
   parse_node_range 1000 ''1-100000000000000000000'' = Inl OverflowError \<and>
   parse_node_range 1000 (CHR ''1'' # replicate int_max_str_digits CHR ''0'') = Inl ValueError"
proof -
  have a: "py_int ''1'' = Inr 1"
    and b: "py_int ''100000000000000000000'' = Inr 100000000000000000000"
    by (simp_all add: py_int_eval)
  have "parse_node_range 1000 (''1'' @ ''-'' @ ''100000000000000000000'')
      = list_of_range 1000 1 (100000000000000000000 + 1)"
    using a b by (intro parse_pair) simp_all
  also have "\<dots> = Inl OverflowError"
    by (rule list_of_range_too_long) (simp add: ssize_t_max_def)
  finally have c: "parse_node_range 1000 ''1-100000000000000000000'' = Inl OverflowError"
    by simp
  have d: "parse_node_range 1000 (CHR ''1'' # replicate int_max_str_digits CHR ''0'') = Inl ValueError"
    by (simp add: parse_single [OF long_numeral(2)] long_numeral(1))
  from a b c d show ?thesis by (intro conjI)
qed

text \<open>
  C5, as amended. \<^verbatim>\<open>parse_node_range\<close> maps a text without a dash that \<^verbatim>\<open>int\<close> accepts,
  so any natural number of at most 4300 digits in decimal, to the list of that number
  alone. It maps two such texts with a dash between them to the list of all integers
  from the first number to the second, both included, in ascending order, provided
  the list is no longer than the largest \<^verbatim>\<open>ssize_t\<close> and the machine has room for it;
  a longer range raises OverflowError. So \<^verbatim>\<open>"3"\<close> gives \<open>[3]\<close>, and \<^verbatim>\<open>"2-4"\<close> gives
  \<open>[2, 3, 4]\<close> when there is room for three numbers.
\<close>

theorem parse_node_range_forms:
  "(CHR ''-'' \<notin> set s \<and> py_int s = Inr n \<longrightarrow> parse_node_range room s = Inr [n]) \<and>
   (CHR ''-'' \<notin> set sa \<and> CHR ''-'' \<notin> set sb \<and> py_int sa = Inr a \<and> py_int sb = Inr b \<and>
    b + 1 - a \<le> ssize_t_max \<and> b + 1 - a \<le> int room \<longrightarrow>
      parse_node_range room (sa @ ''-'' @ sb) = Inr [a..b]) \<and>
   (CHR ''-'' \<notin> set sa \<and> CHR ''-'' \<notin> set sb \<and> py_int sa = Inr a \<and> py_int sb = Inr b \<and>
    ssize_t_max < b + 1 - a \<longrightarrow>
      parse_node_range room (sa @ ''-'' @ sb) = Inl OverflowError) \<and>
   (k < 10 ^ int_max_str_digits \<longrightarrow> parse_node_range room (py_str (int k)) = Inr [int k]) \<and>
   (i < 10 ^ int_max_str_digits \<and> j < 10 ^ int_max_str_digits \<and>
    int j + 1 - int i \<le> ssize_t_max \<and> int j + 1 - int i \<le> int room \<longrightarrow>
      parse_node_range room (py_str (int i) @ ''-'' @ py_str (int j)) = Inr [int i..int j]) \<and>
   parse_node_range room ''3'' = Inr [3] \<and>
   (3 \<le> room \<longrightarrow> parse_node_range room ''2-4'' = Inr [2, 3, 4])"
proof -
  have single: "parse_node_range room t = Inr [m]" if "CHR ''-'' \<notin> set t" "py_int t = Inr m" for t m
    using that by (simp add: parse_single)
  have range: "parse_node_range room (ta @ ''-'' @ tb) = Inr [x..y]"
    if "CHR ''-'' \<notin> set ta" "CHR ''-'' \<notin> set tb" "py_int ta = Inr x" "py_int tb = Inr y"
      "y + 1 - x \<le> ssize_t_max" "y + 1 - x \<le> int room"
    for ta tb x y
    by (simp only: parse_pair [OF that(1-4)] list_of_range_fits [OF that(5,6)])
  have long: "parse_node_range room (ta @ ''-'' @ tb) = Inl OverflowError"
    if "CHR ''-'' \<notin> set ta" "CHR ''-'' \<notin> set tb" "py_int ta = Inr x" "py_int tb = Inr y"
      "ssize_t_max < y + 1 - x"
    for ta tb x y
    by (simp only: parse_pair [OF that(1-4)] list_of_range_too_long [OF that(5)])
  have c1: "CHR ''-'' \<notin> set s \<and> py_int s = Inr n \<longrightarrow> parse_node_range room s = Inr [n]"
    using single by blast
  have c2: "CHR ''-'' \<notin> set sa \<and> CHR ''-'' \<notin> set sb \<and> py_int sa = Inr a \<and> py_int sb = Inr b \<and>
    b + 1 - a \<le> ssize_t_max \<and> b + 1 - a \<le> int room \<longrightarrow>
      parse_node_range room (sa @ ''-'' @ sb) = Inr [a..b]"
    using range by blast
  have c3: "CHR ''-'' \<notin> set sa \<and> CHR ''-'' \<notin> set sb \<and> py_int sa = Inr a \<and> py_int sb = Inr b \<and>
    ssize_t_max < b + 1 - a \<longrightarrow>
      parse_node_range room (sa @ ''-'' @ sb) = Inl OverflowError"
    using long by blast
  have c4: "k < 10 ^ int_max_str_digits \<longrightarrow> parse_node_range room (py_str (int k)) = Inr [int k]"
    by (simp add: py_str_nat single str_nat_no_dash py_int_str_nat)
  have c5: "i < 10 ^ int_max_str_digits \<and> j < 10 ^ int_max_str_digits \<and>
    int j + 1 - int i \<le> ssize_t_max \<and> int j + 1 - int i \<le> int room \<longrightarrow>
      parse_node_range room (py_str (int i) @ ''-'' @ py_str (int j)) = Inr [int i..int j]"
    unfolding py_str_nat
    by (intro impI range; elim conjE) (simp_all add: str_nat_no_dash py_int_str_nat)
  have three: "py_int ''3'' = Inr 3" and two: "py_int ''2'' = Inr 2" and four: "py_int ''4'' = Inr 4"
    by (simp_all add: py_int_eval)
  have c6: "parse_node_range room ''3'' = Inr [3]" using single [of "''3''" 3] three by simp
  have c7: "3 \<le> room \<longrightarrow> parse_node_range room ''2-4'' = Inr [2, 3, 4]"
  proof
    assume "3 \<le> room"
    with range [of "''2''" "''4''" 2 4] two four show "parse_node_range room ''2-4'' = Inr [2, 3, 4]"
      by (simp add: upto.simps ssize_t_max_def)
  qed
  show ?thesis
    by (rule conjI [OF c1 conjI [OF c2 conjI [OF c3 conjI [OF c4 conjI [OF c5 conjI [OF c6 c7]]]]]])
qed

theorem parse_node_range_forms_witness:
  "CHR ''-'' \<notin> set '' +1_0 '' \<and> py_int '' +1_0 '' = Inr 10 \<and>
   parse_node_range 1000 '' +1_0 '' = Inr [10] \<and>
   CHR ''-'' \<notin> set ''1 '' \<and> CHR ''-'' \<notin> set '' 3'' \<and> py_int ''1 '' = Inr 1 \<and> py_int '' 3'' = Inr 3 \<and>
   (3 :: int) + 1 - 1 \<le> ssize_t_max \<and> (3 :: int) + 1 - 1 \<le> int 1000 \<and>
   parse_node_range 1000 (''1 '' @ ''-'' @ '' 3'') = Inr [1..3] \<and>
   (7 :: nat) < 10 ^ int_max_str_digits \<and> parse_node_range 1000 (py_str (int 7)) = Inr [int 7] \<and>
   (3 :: nat) \<le> 1000 \<and> parse_node_range 1000 ''2-4'' = Inr [2, 3, 4]"
proof -
  have a: "py_int '' +1_0 '' = Inr 10" and b: "py_int ''1 '' = Inr 1" and c: "py_int '' 3'' = Inr 3"
    by (simp_all add: py_int_eval)
  have d: "(3 :: int) + 1 - 1 \<le> ssize_t_max" by (simp add: ssize_t_max_def)
  have "(10 :: nat) ^ 1 \<le> 10 ^ int_max_str_digits"
    by (rule power_increasing) (simp_all add: int_max_str_digits_def)
  then have e: "(7 :: nat) < 10 ^ int_max_str_digits" by simp
  show ?thesis
    using parse_node_range_forms [of "'' +1_0 ''" 10 1000 "''1 ''" "'' 3''" 1 3 7 0 0] a b c d e
    by simp
qed

lemma parse_args_two:
  "parse_args room prog (node_arg # rate_arg # rest) =
     (case nodes_block room node_arg [1, 2, 3, 4, 5] of
        Inl e \<Rightarrow> Inl e
      | Inr (nodes, w1) \<Rightarrow>
          (case rate_block rate_arg 20 of
             Inl e \<Rightarrow> Inl e
           | Inr (r, w2) \<Rightarrow> Inr \<lparr>st_nodes = nodes, st_rate = r, st_printed = w1 @ w2\<rparr>))"
  by (simp add: parse_args_def default_nodes split: sum.split)

lemma parse_args_one:
  "parse_args room prog [node_arg] =
     (case nodes_block room node_arg [1, 2, 3, 4, 5] of
        Inl e \<Rightarrow> Inl e
      | Inr (nodes, w1) \<Rightarrow> Inr \<lparr>st_nodes = nodes, st_rate = 20, st_printed = w1\<rparr>)"
  by (simp add: parse_args_def default_nodes split: sum.split)

lemma parse_args_nodes:
  assumes "nodes_block room node_arg [1, 2, 3, 4, 5] = Inr (nodes, w)"
  shows "\<exists>st. parse_args room prog (node_arg # rest) = Inr st \<and> st_nodes st = nodes \<and>
              set w \<subseteq> set (st_printed st)"
proof (cases rest)
  case Nil
  with assms show ?thesis by (simp add: parse_args_one)
next
  case (Cons rate_arg others)
  with assms show ?thesis
    by (cases "py_int rate_arg") (auto simp: parse_args_two rate_block_cases)
qed


section \<open>The command line\<close>

text \<open>
  C6. Whatever list the node argument parses to, \<^verbatim>\<open>main\<close> prints a warning for every
  number in it that is below 1 or above 5 and controls exactly the other numbers,
  in the order in which the parsed list has them: the list is filtered, never
  reordered. The hosts are resolved from the filtered list.
\<close>

theorem out_of_range_nodes_dropped:
  assumes "parse_node_range room node_arg = Inr parsed"
  shows "\<exists>st. parse_args room prog (node_arg # rest) = Inr st \<and>
           st_nodes st = filter (\<lambda>n. 1 \<le> n \<and> n \<le> 5) parsed \<and>
           subseq (st_nodes st) parsed \<and>
           (\<forall>n \<in> set parsed. n < 1 \<or> n > 5 \<longrightarrow>
              NodeOutOfRange n \<in> set (st_printed st) \<and> n \<notin> set (st_nodes st)) \<and>
           (\<forall>n \<in> set parsed. 1 \<le> n \<and> n \<le> 5 \<longrightarrow> n \<in> set (st_nodes st)) \<and>
           main room envs scheds prog (node_arg # rest) =
             Inr (st_printed st @ [SettingRate (st_rate st) (st_nodes st), AllCompleted],
                  run_workers envs scheds (map (\<lambda>n. ''IP_ADDRESS'') (st_nodes st)) (st_rate st) 12)"
proof -
  let ?keep = "filter (\<lambda>n. 1 \<le> n \<and> n \<le> 5) parsed"
  from assms have "nodes_block room node_arg [1, 2, 3, 4, 5] = Inr (?keep, warn_nodes parsed)"
    by (rule nodes_block_ok)
  from parse_args_nodes [OF this] obtain st where
    st: "parse_args room prog (node_arg # rest) = Inr st" and n: "st_nodes st = ?keep"
    and w: "set (warn_nodes parsed) \<subseteq> set (st_printed st)"
    by blast
  have "resolve_hosts ?keep = (map (\<lambda>n. ''IP_ADDRESS'') ?keep, [])"
    by (rule resolve_hosts_in_range) simp
  with st n have "main room envs scheds prog (node_arg # rest) =
      Inr (st_printed st @ [SettingRate (st_rate st) (st_nodes st), AllCompleted],
           run_workers envs scheds (map (\<lambda>n. ''IP_ADDRESS'') (st_nodes st)) (st_rate st) 12)"
    by (simp add: main_def)
  moreover have "\<forall>n \<in> set parsed. n < 1 \<or> n > 5 \<longrightarrow>
      NodeOutOfRange n \<in> set (st_printed st) \<and> n \<notin> set (st_nodes st)"
    using w n by (auto simp: set_warn_nodes)
  ultimately show ?thesis using st n by auto
qed

theorem out_of_range_nodes_dropped_witness:
  "parse_node_range 1000 ''0-7'' = Inr [0, 1, 2, 3, 4, 5, 6, 7] \<and>
   (\<exists>st. parse_args 1000 ''prog'' [''0-7'', ''30''] = Inr st \<and>
      st_nodes st = [1, 2, 3, 4, 5] \<and>
      NodeOutOfRange 0 \<in> set (st_printed st) \<and>
      NodeOutOfRange 6 \<in> set (st_printed st) \<and>
      NodeOutOfRange 7 \<in> set (st_printed st))"
proof -
  have p: "parse_node_range 1000 ''0-7'' = Inr [0, 1, 2, 3, 4, 5, 6, 7]"
    by (simp add: parse_node_range_def py_int_eval list_of_range_def ssize_t_max_def
        py_range_def upto.simps)
  from out_of_range_nodes_dropped [OF p, of "''prog''" "[''30'']" all_down in_turn]
  obtain st where "parse_args 1000 ''prog'' [''0-7'', ''30''] = Inr st"
    and "st_nodes st = filter (\<lambda>n. 1 \<le> n \<and> n \<le> 5) [0, 1, 2, 3, 4, 5, 6, 7]"
    and "\<forall>n \<in> set [0, 1, 2, 3, 4, 5, 6, 7 :: int]. n < 1 \<or> n > 5 \<longrightarrow>
           NodeOutOfRange n \<in> set (st_printed st) \<and> n \<notin> set (st_nodes st)"
    by blast
  then have "parse_args 1000 ''prog'' [''0-7'', ''30''] = Inr st \<and>
      st_nodes st = [1, 2, 3, 4, 5] \<and>
      NodeOutOfRange 0 \<in> set (st_printed st) \<and>
      NodeOutOfRange 6 \<in> set (st_printed st) \<and>
      NodeOutOfRange 7 \<in> set (st_printed st)"
    by simp
  with p show ?thesis by blast
qed


lemma main_of_parse_args:
  assumes "parse_args room prog args = Inr st" and "\<forall>n \<in> set (st_nodes st). 1 \<le> n \<and> n \<le> 5"
  shows "main room envs scheds prog args =
           Inr (st_printed st @ [SettingRate (st_rate st) (st_nodes st), AllCompleted],
                run_workers envs scheds (map (\<lambda>n. ''IP_ADDRESS'') (st_nodes st)) (st_rate st) 12)"
  using assms by (simp add: main_def resolve_hosts_in_range)

text \<open>
  C7. When parsing the node argument raises ValueError, \<^verbatim>\<open>main\<close> catches it, prints
  that the specification is invalid and goes on with all of the nodes 1 to 5: it
  starts a worker for each of them. A text that is not a number, a text with more
  than one dash and a number of more than 4300 digits are such arguments.
\<close>

theorem invalid_node_spec_falls_back:
  assumes "parse_node_range room node_arg = Inl ValueError"
  shows "\<exists>st. parse_args room prog (node_arg # rest) = Inr st \<and>
           st_nodes st = [1, 2, 3, 4, 5] \<and>
           InvalidNodeSpec node_arg \<in> set (st_printed st) \<and>
           main room envs scheds prog (node_arg # rest) =
             Inr (st_printed st @ [SettingRate (st_rate st) [1, 2, 3, 4, 5], AllCompleted],
                  run_workers envs scheds (replicate 5 ''IP_ADDRESS'') (st_rate st) 12)"
proof -
  from assms have "nodes_block room node_arg [1, 2, 3, 4, 5]
      = Inr ([1, 2, 3, 4, 5], [InvalidNodeSpec node_arg])"
    by (rule nodes_block_fallback)
  from parse_args_nodes [OF this] obtain st where
    st: "parse_args room prog (node_arg # rest) = Inr st" and n: "st_nodes st = [1, 2, 3, 4, 5]"
    and w: "InvalidNodeSpec node_arg \<in> set (st_printed st)"
    by auto
  have "main room envs scheds prog (node_arg # rest) =
      Inr (st_printed st @ [SettingRate (st_rate st) [1, 2, 3, 4, 5], AllCompleted],
           run_workers envs scheds (replicate 5 ''IP_ADDRESS'') (st_rate st) 12)"
    using main_of_parse_args [OF st, of envs scheds] n
    by (simp add: numeral_eq_Suc)
  with st n w show ?thesis by blast
qed

theorem invalid_node_spec_falls_back_witness:
  "parse_node_range 1000 ''1-2-3'' = Inl ValueError \<and>
   (\<exists>st. parse_args 1000 ''prog'' [''1-2-3''] = Inr st \<and>
      st_nodes st = [1, 2, 3, 4, 5] \<and>
      InvalidNodeSpec ''1-2-3'' \<in> set (st_printed st)) \<and>
   parse_node_range 1000 ''two'' = Inl ValueError \<and>
   (\<exists>st. parse_args 1000 ''prog'' [''two'', ''30''] = Inr st \<and>
      st_nodes st = [1, 2, 3, 4, 5] \<and>
      InvalidNodeSpec ''two'' \<in> set (st_printed st)) \<and>
   parse_node_range 1000 (CHR ''1'' # replicate int_max_str_digits CHR ''0'') = Inl ValueError \<and>
   (\<exists>st. parse_args 1000 ''prog'' [CHR ''1'' # replicate int_max_str_digits CHR ''0''] = Inr st \<and>
      st_nodes st = [1, 2, 3, 4, 5])"
proof -
  have r: "parse_node_range 1000 (CHR ''1'' # replicate int_max_str_digits CHR ''0'') = Inl ValueError"
    by (simp add: parse_single [OF long_numeral(2)] long_numeral(1))
  from invalid_node_spec_falls_back [OF r, of "''prog''" "[]" all_down in_turn]
  have 3: "\<exists>st. parse_args 1000 ''prog'' [CHR ''1'' # replicate int_max_str_digits CHR ''0''] = Inr st \<and>
      st_nodes st = [1, 2, 3, 4, 5]"
    by blast
  have p: "parse_node_range 1000 ''1-2-3'' = Inl ValueError"
    by (simp add: parse_node_range_def py_int_eval)
  have q: "parse_node_range 1000 ''two'' = Inl ValueError"
    by (simp add: parse_node_range_def py_int_eval)
  from invalid_node_spec_falls_back [OF p, of "''prog''" "[]" all_down in_turn]
  have 1: "\<exists>st. parse_args 1000 ''prog'' [''1-2-3''] = Inr st \<and>
      st_nodes st = [1, 2, 3, 4, 5] \<and>
      InvalidNodeSpec ''1-2-3'' \<in> set (st_printed st)"
    by blast
  from invalid_node_spec_falls_back [OF q, of "''prog''" "[''30'']" all_down in_turn]
  have 2: "\<exists>st. parse_args 1000 ''prog'' [''two'', ''30''] = Inr st \<and>
      st_nodes st = [1, 2, 3, 4, 5] \<and>
      InvalidNodeSpec ''two'' \<in> set (st_printed st)"
    by blast
  from p q r 1 2 3 show ?thesis by (intro conjI)
qed




lemma reversed_range_general:
  assumes "CHR ''-'' \<notin> set sa" and "CHR ''-'' \<notin> set sb"
    and "py_int sa = Inr a" and "py_int sb = Inr b" and "b < a"
  shows "parse_node_range room (sa @ ''-'' @ sb) = Inr [] \<and>
         (\<exists>st. parse_args room prog ((sa @ ''-'' @ sb) # rest) = Inr st \<and>
            st_nodes st = [] \<and>
            InvalidNodeSpec (sa @ ''-'' @ sb) \<notin> set (st_printed st) \<and>
            main room envs scheds prog ((sa @ ''-'' @ sb) # rest) =
              Inr (st_printed st @ [SettingRate (st_rate st) [], AllCompleted], []))"
proof -
  let ?spec = "sa @ ''-'' @ sb"
  have "b + 1 - a \<le> ssize_t_max" and "b + 1 - a \<le> int room"
    using assms(5) by (simp_all add: ssize_t_max_def)
  then have "list_of_range room a (b + 1) = Inr [a..b]"
    by (rule list_of_range_fits)
  with assms(5) have "parse_node_range room ?spec = Inr []"
    by (simp only: parse_pair [OF assms(1-4)]) simp
  then have p: "parse_node_range room ?spec = Inr []" .
  then have nb: "nodes_block room ?spec [1, 2, 3, 4, 5] = Inr ([], [])"
    by (simp add: nodes_block_def)
  have "\<exists>st. parse_args room prog (?spec # rest) = Inr st \<and> st_nodes st = [] \<and>
          InvalidNodeSpec ?spec \<notin> set (st_printed st)"
  proof (cases rest)
    case Nil
    with nb show ?thesis by (simp add: parse_args_one del: append.simps)
  next
    case (Cons rate_arg others)
    with nb show ?thesis
      by (cases "py_int rate_arg") (simp_all add: parse_args_two rate_block_cases del: append.simps)
  qed
  then obtain st where st: "parse_args room prog (?spec # rest) = Inr st" and n: "st_nodes st = []"
    and w: "InvalidNodeSpec ?spec \<notin> set (st_printed st)"
    by blast
  from main_of_parse_args [OF st, of envs scheds] n
  have "main room envs scheds prog (?spec # rest) =
      Inr (st_printed st @ [SettingRate (st_rate st) [], AllCompleted], [])"
    by (simp add: run_workers_def del: append.simps)
  with p st n w show ?thesis by blast
qed

text \<open>
  C9, as amended. For two numbers written without a dash that \<^verbatim>\<open>int\<close> accepts, so for
  any two natural numbers of at most 4300 digits in decimal, where the first is greater
  than the second, \<^verbatim>\<open>parse_node_range\<close> returns the empty list and raises nothing.
  \<^verbatim>\<open>main\<close> then prints no message about an invalid specification, keeps no node and
  starts no worker.
\<close>

theorem reversed_range_is_empty:
  "(0 \<le> b \<and> b < a \<and> a < 10 ^ int_max_str_digits \<longrightarrow>
      parse_node_range room (py_str a @ ''-'' @ py_str b) = Inr [] \<and>
      (\<exists>st. parse_args room prog ((py_str a @ ''-'' @ py_str b) # rest) = Inr st \<and>
         st_nodes st = [] \<and>
         InvalidNodeSpec (py_str a @ ''-'' @ py_str b) \<notin> set (st_printed st) \<and>
         main room envs scheds prog ((py_str a @ ''-'' @ py_str b) # rest) =
           Inr (st_printed st @ [SettingRate (st_rate st) [], AllCompleted], []))) \<and>
   (CHR ''-'' \<notin> set sa \<and> CHR ''-'' \<notin> set sb \<and> py_int sa = Inr x \<and> py_int sb = Inr y \<and> y < x \<longrightarrow>
      parse_node_range room (sa @ ''-'' @ sb) = Inr [] \<and>
      (\<exists>st. parse_args room prog ((sa @ ''-'' @ sb) # rest) = Inr st \<and>
         st_nodes st = [] \<and>
         InvalidNodeSpec (sa @ ''-'' @ sb) \<notin> set (st_printed st) \<and>
         main room envs scheds prog ((sa @ ''-'' @ sb) # rest) =
           Inr (st_printed st @ [SettingRate (st_rate st) [], AllCompleted], [])))"
proof (rule conjI; rule impI; elim conjE)
  assume b0: "0 \<le> b" and ba: "b < a" and cap: "a < 10 ^ int_max_str_digits"
  then have sa: "py_str a = str_nat (nat a)" and sb: "py_str b = str_nat (nat b)"
    by (simp_all add: py_str_def)
  from b0 ba cap have "int (nat a) < int (10 ^ int_max_str_digits)"
    by simp
  then have ca: "nat a < 10 ^ int_max_str_digits"
    by (simp only: of_nat_less_iff)
  from b0 ba have "nat b < nat a" by simp
  from this ca have cb: "nat b < 10 ^ int_max_str_digits" by (rule less_trans)
  have p1: "py_int (py_str a) = Inr a"
    using py_int_str_nat [OF ca] b0 ba by (simp add: sa)
  have p2: "py_int (py_str b) = Inr b"
    using py_int_str_nat [OF cb] b0 by (simp add: sb)
  have d1: "CHR ''-'' \<notin> set (py_str a)" and d2: "CHR ''-'' \<notin> set (py_str b)"
    by (simp_all add: sa sb str_nat_no_dash)
  show "parse_node_range room (py_str a @ ''-'' @ py_str b) = Inr [] \<and>
      (\<exists>st. parse_args room prog ((py_str a @ ''-'' @ py_str b) # rest) = Inr st \<and>
         st_nodes st = [] \<and>
         InvalidNodeSpec (py_str a @ ''-'' @ py_str b) \<notin> set (st_printed st) \<and>
         main room envs scheds prog ((py_str a @ ''-'' @ py_str b) # rest) =
           Inr (st_printed st @ [SettingRate (st_rate st) [], AllCompleted], []))"
    by (rule reversed_range_general [OF d1 d2 p1 p2 ba])
next
  assume "CHR ''-'' \<notin> set sa" "CHR ''-'' \<notin> set sb" "py_int sa = Inr x" "py_int sb = Inr y" "y < x"
  then show "parse_node_range room (sa @ ''-'' @ sb) = Inr [] \<and>
      (\<exists>st. parse_args room prog ((sa @ ''-'' @ sb) # rest) = Inr st \<and>
         st_nodes st = [] \<and>
         InvalidNodeSpec (sa @ ''-'' @ sb) \<notin> set (st_printed st) \<and>
         main room envs scheds prog ((sa @ ''-'' @ sb) # rest) =
           Inr (st_printed st @ [SettingRate (st_rate st) [], AllCompleted], []))"
    by (rule reversed_range_general)
qed

theorem reversed_range_is_empty_witness:
  "(0 :: int) \<le> 2 \<and> (2 :: int) < 4 \<and> (4 :: int) < 10 ^ int_max_str_digits \<and>
   py_str 4 @ ''-'' @ py_str 2 = ''4-2'' \<and>
   parse_node_range 0 ''4-2'' = Inr [] \<and>
   (\<exists>st. parse_args 0 ''prog'' [''4-2''] = Inr st \<and> st_nodes st = []) \<and>
   CHR ''-'' \<notin> set ''+4'' \<and> CHR ''-'' \<notin> set '' 2'' \<and> py_int ''+4'' = Inr 4 \<and>
   py_int '' 2'' = Inr 2 \<and> parse_node_range 0 ''+4- 2'' = Inr []"
proof -
  have s: "py_str 4 @ ''-'' @ py_str 2 = ''4-2''" by code_simp
  have a: "py_int ''+4'' = Inr 4" and b: "py_int '' 2'' = Inr 2"
    by (simp_all add: py_int_eval)
  have "(10 :: int) ^ 1 \<le> 10 ^ int_max_str_digits"
    by (rule power_increasing) (simp_all add: int_max_str_digits_def)
  then have c: "(4 :: int) < 10 ^ int_max_str_digits" by simp
  note t = reversed_range_is_empty [of 2 4 0 "''prog''" "[]" all_down in_turn "''+4''" "'' 2''" 4 2]
  from t [THEN conjunct1] s c
  have 1: "parse_node_range 0 ''4-2'' = Inr [] \<and>
      (\<exists>st. parse_args 0 ''prog'' [''4-2''] = Inr st \<and> st_nodes st = [])"
    by auto
  from t [THEN conjunct2] a b
  have 2: "parse_node_range 0 ''+4- 2'' = Inr []"
    by simp
  from 1 2 s a b c show ?thesis by simp
qed

text \<open>
  C9 as stated speaks of every pair of integers. For 0 and -1 the text is \<^verbatim>\<open>0--1\<close>,
  which splits into three parts, the middle one empty: \<^verbatim>\<open>parse_node_range\<close> raises
  ValueError and \<^verbatim>\<open>main\<close> falls back to all nodes. The same happens when the first
  number is the digit 1 followed by 4300 zeros and the second is 0: \<^verbatim>\<open>int\<close> raises
  ValueError for a numeral of more than 4300 digits.
\<close>

theorem reversed_range_counterexample:
  "(- 1 :: int) < 0 \<and>
   parse_node_range 1000 (py_str 0 @ ''-'' @ py_str (- 1)) = Inl ValueError \<and>
   map_sum id st_nodes (parse_args 1000 ''prog'' [py_str 0 @ ''-'' @ py_str (- 1)])
     = Inr [1, 2, 3, 4, 5] \<and>
   parse_node_range 1000 ((CHR ''1'' # replicate int_max_str_digits CHR ''0'') @ ''-'' @ ''0'')
     = Inl ValueError \<and>
   map_sum id st_nodes
     (parse_args 1000 ''prog'' [(CHR ''1'' # replicate int_max_str_digits CHR ''0'') @ ''-'' @ ''0''])
     = Inr [1, 2, 3, 4, 5]"
proof -
  have s: "py_str 0 @ ''-'' @ py_str (- 1) = ''0--1''"
    by code_simp
  have p: "parse_node_range 1000 ''0--1'' = Inl ValueError"
    by (simp add: parse_node_range_def py_int_eval)
  then have "nodes_block 1000 ''0--1'' [1, 2, 3, 4, 5]
      = Inr ([1, 2, 3, 4, 5], [InvalidNodeSpec ''0--1''])"
    by (rule nodes_block_fallback)
  then have n: "map_sum id st_nodes (parse_args 1000 ''prog'' [''0--1'']) = Inr [1, 2, 3, 4, 5]"
    by (simp add: parse_args_one)
  let ?big = "(CHR ''1'' # replicate int_max_str_digits CHR ''0'') @ ''-'' @ ''0''"
  have q: "parse_node_range 1000 ?big = Inl ValueError"
    by (rule parse_pair_bad_first [OF long_numeral(2) _ long_numeral(1)]) simp
  then have "nodes_block 1000 ?big [1, 2, 3, 4, 5] = Inr ([1, 2, 3, 4, 5], [InvalidNodeSpec ?big])"
    by (rule nodes_block_fallback)
  then have m: "map_sum id st_nodes (parse_args 1000 ''prog'' [?big]) = Inr [1, 2, 3, 4, 5]"
    by (simp add: parse_args_one del: append.simps)
  have z: "(- 1 :: int) < 0" by simp
  from p n s have p': "parse_node_range 1000 (py_str 0 @ ''-'' @ py_str (- 1)) = Inl ValueError"
    and n': "map_sum id st_nodes (parse_args 1000 ''prog'' [py_str 0 @ ''-'' @ py_str (- 1)])
      = Inr [1, 2, 3, 4, 5]"
    by simp_all
  from z p' n' q m show ?thesis by (intro conjI)
qed

section \<open>Facts about the session pattern\<close>

lemma map_of_dict_set: "map_of (dict_set k v d) = (map_of d)(k \<mapsto> v)"
  by (induction d) (auto simp: fun_eq_iff)

lemma session_match_Some:
  assumes "session_match s = Some (tok, rest)"
  shows "s = ''QSESSIONID='' @ tok @ '';'' @ rest \<and> (\<forall>c \<in> set tok. c \<noteq> CHR '';'' \<and> c \<noteq> CHR 0x0A)"
proof -
  define P where "P = (\<lambda>c. c \<noteq> CHR '';'' \<and> c \<noteq> CHR 0x0A)"
  from assms have t: "take 11 s = ''QSESSIONID=''"
    and d: "dropWhile P (drop 11 s) = CHR '';'' # rest"
    and k: "tok = takeWhile P (drop 11 s)"
    by (auto simp: session_match_def P_def split: if_splits list.splits)
  have "take 11 s @ (takeWhile P (drop 11 s) @ dropWhile P (drop 11 s)) = s"
    by (simp only: takeWhile_dropWhile_id append_take_drop_id)
  then have "''QSESSIONID='' @ (tok @ CHR '';'' # rest) = s"
    by (simp only: t d k)
  then have eq: "s = ''QSESSIONID='' @ tok @ '';'' @ rest" by simp
  have "\<forall>c \<in> set tok. P c"
    by (auto simp: k dest: set_takeWhileD)
  with eq show ?thesis by (simp add: P_def)
qed

lemma session_match_Nil: "session_match [] = None"
  by (simp add: session_match_def)

lemma findall_session_Nil: "findall_session [] = []"
  by (subst findall_session.simps) (simp add: session_match_Nil)

lemma findall_session_skip:
  "session_match (c # cs) = None \<Longrightarrow> findall_session (c # cs) = findall_session cs"
  by (subst findall_session.simps) simp

lemma findall_session_hit:
  "session_match s = Some (tok, rest) \<Longrightarrow> findall_session s = tok # findall_session rest"
  by (subst findall_session.simps) simp


lemma findall_session_first:
  "findall_session s = tok # toks \<Longrightarrow>
   \<exists>pre rest. s = pre @ ''QSESSIONID='' @ tok @ '';'' @ rest \<and>
     (\<forall>c \<in> set tok. c \<noteq> CHR '';'' \<and> c \<noteq> CHR 0x0A) \<and>
     (\<forall>k < length pre. session_match (drop k s) = None)"
proof (induction s)
  case Nil
  then show ?case by (simp add: findall_session_Nil)
next
  case (Cons c cs)
  show ?case
  proof (cases "session_match (c # cs)")
    case None
    with Cons.prems have "findall_session cs = tok # toks"
      by (simp add: findall_session_skip)
    from Cons.IH [OF this] obtain pre rest where
      cs: "cs = pre @ ''QSESSIONID='' @ tok @ '';'' @ rest"
      and tk: "\<forall>c \<in> set tok. c \<noteq> CHR '';'' \<and> c \<noteq> CHR 0x0A"
      and no: "\<forall>k < length pre. session_match (drop k cs) = None"
      by (elim exE conjE)
    have nw: "\<forall>k < length (c # pre). session_match (drop k (c # cs)) = None"
    proof (intro allI impI)
      fix k assume "k < length (c # pre)"
      then show "session_match (drop k (c # cs)) = None"
        using None no by (cases k) simp_all
    qed
    from cs have "c # cs = (c # pre) @ ''QSESSIONID='' @ tok @ '';'' @ rest"
      by (simp only: append_Cons)
    with tk nw show ?thesis by (intro exI [of _ "c # pre"] exI [of _ rest] conjI)
  next
    case (Some m)
    obtain t r where m: "m = (t, r)" by (cases m)
    from Some m have hit: "session_match (c # cs) = Some (t, r)" by simp
    from findall_session_hit [OF hit] Cons.prems have "t = tok" by simp
    with hit have "session_match (c # cs) = Some (tok, r)" by simp
    note sm = session_match_Some [OF this]
    from sm [THEN conjunct1] have "c # cs = [] @ ''QSESSIONID='' @ tok @ '';'' @ r"
      by (simp only: append_Nil)
    moreover note sm [THEN conjunct2]
    moreover have "\<forall>k < length ([] :: string). session_match (drop k (c # cs)) = None"
      by simp
    ultimately show ?thesis by (intro exI [of _ "[]"] exI [of _ r] conjI)
  qed
qed

lemma findall_session_empty:
  "findall_session s = [] \<longleftrightarrow> (\<forall>k \<le> length s. session_match (drop k s) = None)"
proof (induction s)
  case Nil
  show ?case by (simp add: findall_session_Nil session_match_Nil)
next
  case (Cons c cs)
  show ?case
  proof (cases "session_match (c # cs)")
    case None
    then have "findall_session (c # cs) = findall_session cs"
      by (rule findall_session_skip)
    moreover have "(\<forall>k \<le> length (c # cs). session_match (drop k (c # cs)) = None)
        \<longleftrightarrow> (\<forall>k \<le> length cs. session_match (drop k cs) = None)"
    proof
      assume a: "\<forall>k \<le> length (c # cs). session_match (drop k (c # cs)) = None"
      show "\<forall>k \<le> length cs. session_match (drop k cs) = None"
      proof (intro allI impI)
        fix k assume "k \<le> length cs"
        with a [rule_format, of "Suc k"] show "session_match (drop k cs) = None" by simp
      qed
    next
      assume a: "\<forall>k \<le> length cs. session_match (drop k cs) = None"
      show "\<forall>k \<le> length (c # cs). session_match (drop k (c # cs)) = None"
      proof (intro allI impI)
        fix k assume "k \<le> length (c # cs)"
        then show "session_match (drop k (c # cs)) = None"
          using None a by (cases k) simp_all
      qed
    qed
    ultimately show ?thesis using Cons.IH by simp
  next
    case (Some m)
    obtain t r where "m = (t, r)" by (cases m)
    with Some have "session_match (c # cs) = Some (t, r)" by simp
    from findall_session_hit [OF this] have "findall_session (c # cs) \<noteq> []" by simp
    moreover from Some have "\<not> (\<forall>k \<le> length (c # cs). session_match (drop k (c # cs)) = None)"
      by (intro notI) (drule spec [of _ 0], simp)
    ultimately show ?thesis by simp
  qed
qed


lemma get_session_unfold:
  assumes "hdrs0 = dict_set ''content-type''
             (JStr ''application/x-www-form-urlencoded; charset=UTF-8'') (Fans_headers s)"
    and "rq = session_request self hdrs0 random_string"
    and "s1 = s\<lparr>Fans_headers := hdrs0, trace := trace s @ [rq]\<rparr>"
  shows "get_session env self random_string s =
     (case env (trace s) rq of
        Inl e \<Rightarrow> (Inl e, s1)
      | Inr response \<Rightarrow>
          (case resp_set_cookie response of
             None \<Rightarrow> (Inl KeyError, s1)
           | Some set_cookie \<Rightarrow>
               (case item0 (findall_session set_cookie) of
                  Inl e \<Rightarrow> (Inl e, s1)
                | Inr token \<Rightarrow>
                    (case resp_json response of
                       None \<Rightarrow> (Inl JSONDecodeError, s1)
                     | Some j \<Rightarrow>
                         (case subscript j ''CSRFToken'' of
                            Inl e \<Rightarrow> (Inl e, s1)
                          | Inr csrf \<Rightarrow>
                              (Inr (),
                               s1\<lparr>Fans_headers :=
                                    dict_set ''content-type'' (JStr ''application/json'')
                                      (dict_set ''Cookie'' (JStr (session_cookie token))
                                         (dict_set ''X-Csrftoken'' csrf hdrs0))\<rparr>))))))"
  unfolding assms by (simp add: get_session_def send_def Let_def split: sum.split option.split)

section \<open>The login\<close>

text \<open>
  C4. When the login call returns a response whose Set-Cookie header has a match of
  \<^verbatim>\<open>QSESSIONID=(.*?);\<close> and whose JSON body has the field CSRFToken, \<^verbatim>\<open>get_session\<close>
  completes, and afterwards the header dict has Cookie equal to
  \<^verbatim>\<open>lang=zh-cn;QSESSIONID=\<close> followed by the token and \<^verbatim>\<open>; refresh_disable=1\<close>, X-Csrftoken
  equal to that field, and content-type equal to \<^verbatim>\<open>application/json\<close>. The token is the
  group of the leftmost match: it ends before the first semicolon after the
  literal and no match starts earlier. When the pattern has no match the call raises
  IndexError, when the body has no CSRFToken field it raises as well, and the call
  completes in no other case than the first.
\<close>

theorem get_session_stores_session:
  assumes "hdrs0 = dict_set ''content-type''
             (JStr ''application/x-www-form-urlencoded; charset=UTF-8'') (Fans_headers s)"
    and "rq = session_request self hdrs0 random_string"
  shows
    "(\<forall>response sc token toks j csrf.
        env (trace s) rq = Inr response \<and> resp_set_cookie response = Some sc \<and>
        findall_session sc = token # toks \<and>
        resp_json response = Some j \<and> subscript j ''CSRFToken'' = Inr csrf \<longrightarrow>
        (\<exists>s'. get_session env self random_string s = (Inr (), s') \<and>
           map_of (Fans_headers s') ''Cookie'' =
             Some (JStr (''lang=zh-cn;QSESSIONID='' @ token @ ''; refresh_disable=1'')) \<and>
           map_of (Fans_headers s') ''X-Csrftoken'' = Some csrf \<and>
           map_of (Fans_headers s') ''content-type'' = Some (JStr ''application/json'')) \<and>
        (\<exists>pre rest. sc = pre @ ''QSESSIONID='' @ token @ '';'' @ rest \<and>
           (\<forall>c \<in> set token. c \<noteq> CHR '';'' \<and> c \<noteq> CHR 0x0A) \<and>
           (\<forall>k < length pre. session_match (drop k sc) = None))) \<and>
     (\<forall>response sc.
        env (trace s) rq = Inr response \<and> resp_set_cookie response = Some sc \<and>
        findall_session sc = [] \<longrightarrow>
        fst (get_session env self random_string s) = Inl IndexError) \<and>
     (\<forall>response.
        env (trace s) rq = Inr response \<and>
        (\<forall>j csrf. resp_json response = Some j \<longrightarrow> subscript j ''CSRFToken'' \<noteq> Inr csrf) \<longrightarrow>
        (\<exists>e. fst (get_session env self random_string s) = Inl e)) \<and>
     (\<forall>u s'. get_session env self random_string s = (Inr u, s') \<longrightarrow>
        (\<exists>response sc token toks j csrf.
           env (trace s) rq = Inr response \<and> resp_set_cookie response = Some sc \<and>
           findall_session sc = token # toks \<and>
           resp_json response = Some j \<and> subscript j ''CSRFToken'' = Inr csrf))"
proof -
  define s1 where "s1 = s\<lparr>Fans_headers := hdrs0, trace := trace s @ [rq]\<rparr>"
  note unf = get_session_unfold [OF assms s1_def, of env]
  have ok: "\<exists>s'. get_session env self random_string s = (Inr (), s') \<and>
           map_of (Fans_headers s') ''Cookie'' =
             Some (JStr (''lang=zh-cn;QSESSIONID='' @ token @ ''; refresh_disable=1'')) \<and>
           map_of (Fans_headers s') ''X-Csrftoken'' = Some csrf \<and>
           map_of (Fans_headers s') ''content-type'' = Some (JStr ''application/json'')"
    if "env (trace s) rq = Inr response" "resp_set_cookie response = Some sc"
      "findall_session sc = token # toks" "resp_json response = Some j"
      "subscript j ''CSRFToken'' = Inr csrf"
    for response sc token toks j csrf
    using that by (simp add: unf map_of_dict_set session_cookie_def)
  have nomatch: "fst (get_session env self random_string s) = Inl IndexError"
    if "env (trace s) rq = Inr response" "resp_set_cookie response = Some sc"
      "findall_session sc = []"
    for response sc
    using that by (simp add: unf)
  have nocsrf: "\<exists>e. fst (get_session env self random_string s) = Inl e"
    if "env (trace s) rq = Inr response"
      "\<forall>j csrf. resp_json response = Some j \<longrightarrow> subscript j ''CSRFToken'' \<noteq> Inr csrf"
    for response
    using that by (auto simp: unf split: option.splits sum.splits)
  have only: "\<exists>response sc token toks j csrf.
           env (trace s) rq = Inr response \<and> resp_set_cookie response = Some sc \<and>
           findall_session sc = token # toks \<and>
           resp_json response = Some j \<and> subscript j ''CSRFToken'' = Inr csrf"
    if "get_session env self random_string s = (Inr u, s')" for u s'
    using that
    by (cases "env (trace s) rq")
      (auto simp: unf split: option.splits sum.splits elim: item0.elims)
  have c1: "\<forall>response sc token toks j csrf.
        env (trace s) rq = Inr response \<and> resp_set_cookie response = Some sc \<and>
        findall_session sc = token # toks \<and>
        resp_json response = Some j \<and> subscript j ''CSRFToken'' = Inr csrf \<longrightarrow>
        (\<exists>s'. get_session env self random_string s = (Inr (), s') \<and>
           map_of (Fans_headers s') ''Cookie'' =
             Some (JStr (''lang=zh-cn;QSESSIONID='' @ token @ ''; refresh_disable=1'')) \<and>
           map_of (Fans_headers s') ''X-Csrftoken'' = Some csrf \<and>
           map_of (Fans_headers s') ''content-type'' = Some (JStr ''application/json'')) \<and>
        (\<exists>pre rest. sc = pre @ ''QSESSIONID='' @ token @ '';'' @ rest \<and>
           (\<forall>c \<in> set token. c \<noteq> CHR '';'' \<and> c \<noteq> CHR 0x0A) \<and>
           (\<forall>k < length pre. session_match (drop k sc) = None))"
  proof (intro allI impI, elim conjE)
    fix response sc token toks j csrf
    assume a: "env (trace s) rq = Inr response" "resp_set_cookie response = Some sc"
      "findall_session sc = token # toks" "resp_json response = Some j"
      "subscript j ''CSRFToken'' = Inr csrf"
    from ok [OF a] findall_session_first [OF a(3)]
    show "(\<exists>s'. get_session env self random_string s = (Inr (), s') \<and>
           map_of (Fans_headers s') ''Cookie'' =
             Some (JStr (''lang=zh-cn;QSESSIONID='' @ token @ ''; refresh_disable=1'')) \<and>
           map_of (Fans_headers s') ''X-Csrftoken'' = Some csrf \<and>
           map_of (Fans_headers s') ''content-type'' = Some (JStr ''application/json'')) \<and>
        (\<exists>pre rest. sc = pre @ ''QSESSIONID='' @ token @ '';'' @ rest \<and>
           (\<forall>c \<in> set token. c \<noteq> CHR '';'' \<and> c \<noteq> CHR 0x0A) \<and>
           (\<forall>k < length pre. session_match (drop k sc) = None))"
      by (rule conjI)
  qed
  have c2: "\<forall>response sc.
        env (trace s) rq = Inr response \<and> resp_set_cookie response = Some sc \<and>
        findall_session sc = [] \<longrightarrow>
        fst (get_session env self random_string s) = Inl IndexError"
    by (intro allI impI, elim conjE) (rule nomatch)
  have c3: "\<forall>response.
        env (trace s) rq = Inr response \<and>
        (\<forall>j csrf. resp_json response = Some j \<longrightarrow> subscript j ''CSRFToken'' \<noteq> Inr csrf) \<longrightarrow>
        (\<exists>e. fst (get_session env self random_string s) = Inl e)"
    by (intro allI impI, elim conjE) (rule nocsrf)
  have c4: "\<forall>u s'. get_session env self random_string s = (Inr u, s') \<longrightarrow>
        (\<exists>response sc token toks j csrf.
           env (trace s) rq = Inr response \<and> resp_set_cookie response = Some sc \<and>
           findall_session sc = token # toks \<and>
           resp_json response = Some j \<and> subscript j ''CSRFToken'' = Inr csrf)"
    by (intro allI impI) (rule only)
  show ?thesis
    by (rule conjI [OF c1 conjI [OF c2 conjI [OF c3 c4]]])
qed


lemma login_tokens: "findall_session ''lang=en; QSESSIONID=abc123; path=/'' = [''abc123'']"
  by code_simp

lemma stale_tokens: "findall_session ''lang=en; path=/'' = []"
  by code_simp

theorem get_session_stores_session_witness:
  "(\<exists>s'. get_session (\<lambda>h rq. Inr login_response) bmc1 (JStr ''r1'') fresh_proc = (Inr (), s') \<and>
      map_of (Fans_headers s') ''Cookie'' =
        Some (JStr ''lang=zh-cn;QSESSIONID=abc123; refresh_disable=1'') \<and>
      map_of (Fans_headers s') ''X-Csrftoken'' = Some (JStr ''x9'') \<and>
      map_of (Fans_headers s') ''content-type'' = Some (JStr ''application/json'')) \<and>
   fst (get_session (\<lambda>h rq. Inr stale_response) bmc1 (JStr ''r1'') fresh_proc) = Inl IndexError \<and>
   (\<exists>e. fst (get_session (\<lambda>h rq. Inr plain_response) bmc1 (JStr ''r1'') fresh_proc) = Inl e) \<and>
   (\<exists>response sc token toks.
      resp_set_cookie response = Some sc \<and> findall_session sc = token # toks \<and>
      response = login_response)"
proof -
  note t1 = get_session_stores_session [OF refl refl, of "\<lambda>h rq. Inr login_response" fresh_proc
      bmc1 "JStr ''r1''"]
  note t2 = get_session_stores_session [OF refl refl, of "\<lambda>h rq. Inr stale_response" fresh_proc
      bmc1 "JStr ''r1''"]
  note t3 = get_session_stores_session [OF refl refl, of "\<lambda>h rq. Inr plain_response" fresh_proc
      bmc1 "JStr ''r1''"]
  from t1 [THEN conjunct1, rule_format, of login_response "''lang=en; QSESSIONID=abc123; path=/''"
      "''abc123''" "[]" "JDict [(''ok'', JInt 0), (''CSRFToken'', JStr ''x9'')]" "JStr ''x9''"]
  have a: "\<exists>s'. get_session (\<lambda>h rq. Inr login_response) bmc1 (JStr ''r1'') fresh_proc = (Inr (), s') \<and>
      map_of (Fans_headers s') ''Cookie'' =
        Some (JStr ''lang=zh-cn;QSESSIONID=abc123; refresh_disable=1'') \<and>
      map_of (Fans_headers s') ''X-Csrftoken'' = Some (JStr ''x9'') \<and>
      map_of (Fans_headers s') ''content-type'' = Some (JStr ''application/json'')"
    by (simp add: login_response_def login_tokens)
  from t2 [THEN conjunct2, THEN conjunct1, rule_format, of stale_response "''lang=en; path=/''"]
  have b: "fst (get_session (\<lambda>h rq. Inr stale_response) bmc1 (JStr ''r1'') fresh_proc) = Inl IndexError"
    by (simp add: stale_response_def stale_tokens)
  from t3 [THEN conjunct2, THEN conjunct2, THEN conjunct1, rule_format, of plain_response]
  have c: "\<exists>e. fst (get_session (\<lambda>h rq. Inr plain_response) bmc1 (JStr ''r1'') fresh_proc) = Inl e"
    by (simp add: plain_response_def)
  from a obtain s' where
    "get_session (\<lambda>h rq. Inr login_response) bmc1 (JStr ''r1'') fresh_proc = (Inr (), s')"
    by blast
  from t1 [THEN conjunct2, THEN conjunct2, THEN conjunct2, rule_format, OF this]
  have d: "\<exists>response sc token toks.
      resp_set_cookie response = Some sc \<and> findall_session sc = token # toks \<and>
      response = login_response"
    by auto
  from a b c d show ?thesis by (intro conjI)
qed

section \<open>Facts about the calls of the fan tasks\<close>

lemma send_simps:
  "fst (send env rq s) = env (trace s) rq"
  "snd (send env rq s) = s\<lparr>trace := trace s @ [rq]\<rparr>"
  by (simp_all add: send_def)

lemma put_fans_state:
  "snd (put_fans env self d xs s) =
     s\<lparr>trace := trace s @ map (fan_request self (Fans_headers s) d) xs\<rparr>"
proof (induction xs arbitrary: s)
  case Nil
  show ?case by simp
next
  case (Cons x xs)
  show ?case
    using Cons [of "s\<lparr>trace := trace s @ [fan_request self (Fans_headers s) d x]\<rparr>"]
    by (simp add: send_def case_prod_beta)
qed

lemma put_fans_keys: "map fst (fst (put_fans env self d xs s)) = xs"
proof (induction xs arbitrary: s)
  case Nil
  show ?case by simp
next
  case (Cons x xs)
  show ?case
    using Cons [of "s\<lparr>trace := trace s @ [fan_request self (Fans_headers s) d x]\<rparr>"]
    by (simp add: send_def case_prod_beta)
qed

lemma put_fans_outcome:
  "i \<in> set xs \<Longrightarrow>
   map_of (fst (put_fans env self d xs s)) i = Some (fan_outcome env self d xs s i)"
proof (induction xs arbitrary: s)
  case Nil
  then show ?case by simp
next
  case (Cons x xs)
  let ?s1 = "s\<lparr>trace := trace s @ [fan_request self (Fans_headers s) d x]\<rparr>"
  show ?case
  proof (cases "i = x")
    case True
    then show ?thesis by (simp add: send_def fan_outcome_def case_prod_beta)
  next
    case False
    with Cons.prems have "i \<in> set xs" by simp
    from Cons.IH [OF this, of ?s1] False show ?thesis
      by (simp add: send_def fan_outcome_def case_prod_beta)
  qed
qed


lemma fan_url_inj: "fan_url self i = fan_url self j \<Longrightarrow> i = j"
  by (simp add: fan_url_def py_str_def str_nat_inj)

lemma fan_request_url: "req_url (fan_request self hdrs d i) = fan_url self i"
  by (simp add: fan_request_def)

lemma calls_to_one_fan:
  assumes "distinct xs" and "i \<in> set xs"
  shows "length (filter (\<lambda>rq. req_url rq = fan_url self i) (map (fan_request self hdrs d) xs)) = 1"
proof -
  have "filter (\<lambda>rq. req_url rq = fan_url self i) (map (fan_request self hdrs d) xs)
      = map (fan_request self hdrs d) (filter (\<lambda>j. j = i) xs)"
  proof -
    have "(fan_url self j = fan_url self i) = (j = i)" for j
      using fan_url_inj by blast
    then show ?thesis by (simp add: filter_map comp_def fan_request_url)
  qed
  moreover have "length (filter (\<lambda>j. j = i) xs) = card ({j. j = i} \<inter> set xs)"
    using assms(1) by (rule distinct_length_filter)
  moreover have "{j. j = i} \<inter> set xs = {i}" using assms(2) by auto
  ultimately show ?thesis by simp
qed

lemma task_line_outcome:
  "i \<in> set xs \<Longrightarrow>
   task_line (fst (put_fans env self d xs s)) i = [fan_line i (fan_outcome env self d xs s i)]"
  by (simp add: task_line_def put_fans_outcome)

lemma next_task_ready: "ready \<noteq> [] \<Longrightarrow> next_task prefs ready \<in> set ready"
proof (cases "filter (\<lambda>i. i \<in> set ready) prefs")
  case Nil
  assume ne: "ready \<noteq> []"
  from Nil have "next_task prefs ready = hd ready" by (simp only: next_task_def list.case)
  with hd_in_set [OF ne] show ?thesis by (simp only:)
next
  case (Cons i rest)
  then have "i \<in> set (filter (\<lambda>i. i \<in> set ready) prefs)" by simp
  moreover from Cons have "next_task prefs ready = i" by (simp only: next_task_def list.case)
  ultimately show ?thesis by simp
qed

lemma next_task_listed:
  assumes "set pre \<inter> set ready = {}" and "r \<in> set ready"
  shows "next_task (pre @ r # rs) ready = r"
proof -
  from assms(1) have "filter (\<lambda>i. i \<in> set ready) pre = []"
    by (auto simp: filter_empty_conv)
  with assms(2) show ?thesis by (simp add: next_task_def)
qed

lemma run_order_Nil: "run_order w prefs [] = []"
  by (subst run_order.simps) simp

lemma run_order_step:
  "0 < w \<Longrightarrow> q \<noteq> [] \<Longrightarrow>
   run_order w prefs q =
     next_task prefs (take w q) # run_order w prefs (remove1 (next_task prefs (take w q)) q)"
  by (subst run_order.simps) simp

lemma run_order_perm:
  "0 < w \<Longrightarrow> distinct q \<Longrightarrow>
   distinct (run_order w prefs q) \<and> set (run_order w prefs q) = set q"
proof (induction w prefs q rule: run_order.induct)
  case (1 w prefs q)
  show ?case
  proof (cases "q = []")
    case True
    then show ?thesis by (simp add: run_order_Nil)
  next
    case False
    let ?i = "next_task prefs (take w q)"
    from False "1.prems"(1) have "take w q \<noteq> []" by simp
    then have "?i \<in> set (take w q)" by (rule next_task_ready)
    then have iq: "?i \<in> set q" by (rule in_set_takeD)
    from "1.prems" False have "\<not> (w = 0 \<or> q = [])" by simp
    from "1.IH" [OF this "1.prems"(1)] "1.prems"(2)
    have ih: "distinct (run_order w prefs (remove1 ?i q))"
      and st: "set (run_order w prefs (remove1 ?i q)) = set (remove1 ?i q)"
      by simp_all
    from "1.prems"(2) have rm: "set (remove1 ?i q) = set q - {?i}" by simp
    have "run_order w prefs q = ?i # run_order w prefs (remove1 ?i q)"
      using "1.prems"(1) False by (rule run_order_step)
    with ih st rm iq show ?thesis by auto
  qed
qed

lemma run_order_listed:
  "distinct rest \<Longrightarrow> distinct q \<Longrightarrow> set rest = set q \<Longrightarrow> set pre \<inter> set q = {} \<Longrightarrow>
   length q \<le> w \<Longrightarrow> run_order w (pre @ rest) q = rest"
proof (induction rest arbitrary: pre q)
  case Nil
  then show ?case by (simp add: run_order_Nil)
next
  case (Cons r rs)
  from Cons.prems(3) have rq: "r \<in> set q" by auto
  then have ne: "q \<noteq> []" by auto
  with Cons.prems(5) have w: "0 < w" by (cases q) auto
  from Cons.prems(5) have tk: "take w q = q" by simp
  from Cons.prems(4) rq have nx: "next_task (pre @ r # rs) q = r"
    by (rule next_task_listed)
  from Cons.prems(1,2,3) have st: "set rs = set (remove1 r q)" by auto
  from Cons.prems(2,4) have dj: "set (pre @ [r]) \<inter> set (remove1 r q) = {}" by auto
  from Cons.prems(5) rq have ln: "length (remove1 r q) \<le> w"
    by (simp add: length_remove1)
  from Cons.prems(1) have "distinct rs" by simp
  moreover from Cons.prems(2) have "distinct (remove1 r q)" by simp
  ultimately have "run_order w ((pre @ [r]) @ rs) (remove1 r q) = rs"
    using st dj ln by (rule Cons.IH)
  then have "run_order w (pre @ r # rs) (remove1 r q) = rs" by simp
  with run_order_step [OF w ne, of "pre @ r # rs"] tk nx show ?case by simp
qed

lemma is_schedule_run_order:
  assumes "is_schedule n sch"
  shows "run_order n (arrival sch) [0..<n] = arrival sch"
    and "run_order (length [0..<n]) (reported sch) [0..<n] = reported sch"
proof -
  from assms have "distinct (arrival sch)" "set (arrival sch) = set [0..<n]"
    "distinct (reported sch)" "set (reported sch) = set [0..<n]"
    by (simp_all add: is_schedule_def)
  then show "run_order n (arrival sch) [0..<n] = arrival sch"
    and "run_order (length [0..<n]) (reported sch) [0..<n] = reported sch"
    using run_order_listed [of "arrival sch" "[0..<n]" "[]" n]
      run_order_listed [of "reported sch" "[0..<n]" "[]" "length [0..<n]"]
    by simp_all
qed

lemma change_fans_unfold:
  assumes "0 < fans"
  shows "change_fans env sch self d fans s =
     (Inr (),
      s\<lparr>trace := trace s @ map (fan_request self (Fans_headers s) d)
                            (run_order (nat fans) (arrival sch) [0..<nat fans]),
        out := out s @ map (\<lambda>i. fan_line i (fan_outcome env self d
                                   (run_order (nat fans) (arrival sch) [0..<nat fans]) s i))
                         (run_order (nat fans) (reported sch) [0..<nat fans])\<rparr>)"
proof -
  let ?order = "run_order (nat fans) (arrival sch) [0..<nat fans]"
  let ?lines = "run_order (nat fans) (reported sch) [0..<nat fans]"
  from assms have w: "0 < nat fans" by simp
  have "set ?lines = set [0..<nat fans]" and "set ?order = set [0..<nat fans]"
    using run_order_perm [OF w, of "[0..<nat fans]"] by simp_all
  then have sub: "set ?lines \<subseteq> set ?order" by simp
  have "concat (map (task_line (fst (put_fans env self d ?order s))) ?lines)
      = concat (map (\<lambda>i. [fan_line i (fan_outcome env self d ?order s i)]) ?lines)"
    using sub by (intro arg_cong [where f = concat] map_cong refl task_line_outcome) auto
  also have "\<dots> = map (\<lambda>i. fan_line i (fan_outcome env self d ?order s i)) ?lines"
    by (induction ?lines) simp_all
  finally show ?thesis
    using assms put_fans_state [of env self d ?order s]
    by (simp add: change_fans_def ThreadPoolExecutor_def case_prod_beta Let_def)
qed

lemma change_fans_refused:
  "fans \<le> 0 \<Longrightarrow> change_fans env sch self d fans s = (Inl ValueError, s)"
  by (simp add: change_fans_def ThreadPoolExecutor_def)

lemma echoes_outcome:
  "echoes env \<Longrightarrow> fan_outcome env self d arr s i = Inr (JInt d)"
proof -
  assume e: "echoes env"
  let ?rq = "fan_request self (Fans_headers s) d i"
  let ?hist = "trace s @ map (fan_request self (Fans_headers s) d) (takeWhile (\<lambda>j. j \<noteq> i) arr)"
  have "req_body ?rq = JsonBody (JDict [(''duty'', JInt d)])" by (simp add: fan_request_def)
  with e obtain r where "env ?hist ?rq = Inr r" and "resp_json r = Some (JDict [(''duty'', JInt d)])"
    unfolding echoes_def by blast
  then show ?thesis by (simp add: fan_outcome_def read_duty_def)
qed

lemma is_schedule_zero: "is_schedule 0 sch \<Longrightarrow> arrival sch = [] \<and> reported sch = []"
  by (simp add: is_schedule_def)

lemma change_fans_total:
  assumes "is_schedule (nat fans) sch"
  shows "change_fans env sch self d fans s =
     (if 0 < fans then Inr () else Inl ValueError,
      s\<lparr>trace := trace s @ map (fan_request self (Fans_headers s) d) (arrival sch),
        out := out s @ map (\<lambda>i. fan_line i (fan_outcome env self d (arrival sch) s i))
                         (reported sch)\<rparr>)"
proof (cases "0 < fans")
  case True
  from is_schedule_run_order [OF assms]
  have "run_order (nat fans) (arrival sch) [0..<nat fans] = arrival sch"
    and "run_order (nat fans) (reported sch) [0..<nat fans] = reported sch"
    by simp_all
  with change_fans_unfold [OF True, of env sch self d s] True show ?thesis by simp
next
  case False
  then have "nat fans = 0" by simp
  with assms have "arrival sch = [] \<and> reported sch = []" by (simp add: is_schedule_zero)
  with False show ?thesis by (simp add: change_fans_refused)
qed

section \<open>The fan tasks\<close>

text \<open>
  C1. For every fan count \<open>n\<close>, every rate \<open>d\<close> and every schedule, \<^verbatim>\<open>change_fans\<close> makes a
  pool of \<open>n\<close> workers and runs one task for each index of \<^verbatim>\<open>range(n)\<close>. The calls it
  makes are \<open>n\<close> calls, each a PUT with body \<^verbatim>\<open>{duty: d}\<close> and the headers of the process,
  each to \<^verbatim>\<open>https://{host}/api/settings/fan/{i}\<close> for an index \<open>i\<close> below \<open>n\<close>, and for
  each such index exactly one call goes to that address. Every task prints one line;
  the line of a task whose call is answered with a duty is the report of its index
  with the duty read from the answer to its own call, and with a server that echoes
  what it is sent the report for every index shows \<open>d\<close>. (A count that is not
  positive makes the pool refuse to start: no call is made and ValueError is raised.)
\<close>

theorem change_fans_one_put_per_fan:
  "\<exists>s' order lines calls printed.
      ThreadPoolExecutor fans = (if 0 < fans then Inr (nat fans) else Inl ValueError) \<and>
      change_fans env sch self d fans s = (if 0 < fans then Inr () else Inl ValueError, s') \<and>
      order = run_order (nat fans) (arrival sch) [0..<nat fans] \<and>
      distinct order \<and> set order = {0..<nat fans} \<and>
      trace s' = trace s @ calls \<and>
      calls = map (fan_request self (Fans_headers s) d) order \<and>
      length calls = nat fans \<and>
      (\<forall>rq \<in> set calls.
         req_method rq = PUT \<and> req_body rq = JsonBody (JDict [(''duty'', JInt d)]) \<and>
         req_headers rq = Fans_headers s \<and>
         (\<exists>i < nat fans.
            req_url rq = ''https://'' @ host self @ ''/api/settings/fan/'' @ py_str (int i))) \<and>
      (\<forall>i < nat fans.
         length (filter (\<lambda>rq. req_url rq =
                    ''https://'' @ host self @ ''/api/settings/fan/'' @ py_str (int i)) calls) = 1) \<and>
      lines = run_order (nat fans) (reported sch) [0..<nat fans] \<and>
      distinct lines \<and> set lines = {0..<nat fans} \<and>
      out s' = out s @ printed \<and>
      printed = map (\<lambda>i. fan_line i (fan_outcome env self d order s i)) lines \<and>
      (\<forall>i < nat fans. \<forall>duty. fan_outcome env self d order s i = Inr duty \<longrightarrow>
         FanReport i duty \<in> set printed) \<and>
      (echoes env \<longrightarrow> (\<forall>i < nat fans. FanReport i (JInt d) \<in> set printed))"
proof -
  define order where "order = run_order (nat fans) (arrival sch) [0..<nat fans]"
  define lines where "lines = run_order (nat fans) (reported sch) [0..<nat fans]"
  define calls where "calls = map (fan_request self (Fans_headers s) d) order"
  define printed where
    "printed = map (\<lambda>i. fan_line i (fan_outcome env self d order s i)) lines"
  define s' where "s' = s\<lparr>trace := trace s @ calls, out := out s @ printed\<rparr>"
  have perm: "distinct order \<and> set order = {0..<nat fans} \<and>
      distinct lines \<and> set lines = {0..<nat fans}"
  proof (cases "0 < fans")
    case True
    then have w: "0 < nat fans" by simp
    from run_order_perm [OF w, of "[0..<nat fans]"] show ?thesis
      by (simp add: order_def lines_def)
  next
    case False
    then show ?thesis by (simp add: order_def lines_def run_order_Nil)
  qed
  have pool: "ThreadPoolExecutor fans = (if 0 < fans then Inr (nat fans) else Inl ValueError)"
    by (simp add: ThreadPoolExecutor_def)
  have run: "change_fans env sch self d fans s = (if 0 < fans then Inr () else Inl ValueError, s')"
  proof (cases "0 < fans")
    case True
    from change_fans_unfold [OF True, of env sch self d s] True show ?thesis
      by (simp add: s'_def calls_def printed_def order_def lines_def)
  next
    case False
    then have "order = []" and "lines = []" by (simp_all add: order_def lines_def run_order_Nil)
    with False show ?thesis
      by (simp add: change_fans_refused s'_def calls_def printed_def)
  qed
  have len: "length calls = nat fans"
    using perm distinct_card [of order] by (simp add: calls_def)
  have url: "req_url (fan_request self hdrs d i) =
      ''https://'' @ host self @ ''/api/settings/fan/'' @ py_str (int i)" for hdrs i
    by (simp add: fan_request_def fan_url_def)
  have shape: "\<forall>rq \<in> set calls.
         req_method rq = PUT \<and> req_body rq = JsonBody (JDict [(''duty'', JInt d)]) \<and>
         req_headers rq = Fans_headers s \<and>
         (\<exists>i < nat fans.
            req_url rq = ''https://'' @ host self @ ''/api/settings/fan/'' @ py_str (int i))"
    using perm by (auto simp: calls_def url) (simp add: fan_request_def)+
  have once: "\<forall>i < nat fans.
         length (filter (\<lambda>rq. req_url rq =
                    ''https://'' @ host self @ ''/api/settings/fan/'' @ py_str (int i)) calls) = 1"
  proof (intro allI impI)
    fix i assume "i < nat fans"
    with perm have "distinct order" and "i \<in> set order" by simp_all
    from calls_to_one_fan [OF this, of self "Fans_headers s" d]
    show "length (filter (\<lambda>rq. req_url rq =
                    ''https://'' @ host self @ ''/api/settings/fan/'' @ py_str (int i)) calls) = 1"
      by (simp add: calls_def fan_url_def)
  qed
  have rep: "fan_line i (fan_outcome env self d order s i) \<in> set printed"
    if "i < nat fans" for i
    using that perm by (simp add: printed_def)
  have ok: "\<forall>i < nat fans. \<forall>duty. fan_outcome env self d order s i = Inr duty \<longrightarrow>
         FanReport i duty \<in> set printed"
  proof (intro allI impI)
    fix i duty
    assume "i < nat fans" and "fan_outcome env self d order s i = Inr duty"
    with rep [of i] show "FanReport i duty \<in> set printed" by (simp add: fan_line_def)
  qed
  have echo: "echoes env \<longrightarrow> (\<forall>i < nat fans. FanReport i (JInt d) \<in> set printed)"
    using ok by (simp add: echoes_outcome)
  have "trace s' = trace s @ calls" and "out s' = out s @ printed"
    by (simp_all add: s'_def)
  with pool run perm len shape once ok echo show ?thesis
    unfolding order_def [symmetric] lines_def [symmetric] calls_def [symmetric]
      printed_def [symmetric]
    by (intro exI [of _ s'] exI [of _ order] exI [of _ lines] exI [of _ calls]
        exI [of _ printed]) (simp add: order_def lines_def calls_def printed_def)
qed

lemma three_fans_schedule: "is_schedule 3 three_fans"
  by (auto simp: is_schedule_def three_fans_def)

lemma echo_env_echoes: "echoes echo_env"
  by (simp add: echoes_def echo_env_def)


lemma twelve_order:
  "run_order 12 [11, 3] [0..<12] = [11, 3, 0, 1, 2, 4, 5, 6, 7, 8, 9, 10]"
  "run_order 12 [5] [0..<12] = [5, 0, 1, 2, 3, 4, 6, 7, 8, 9, 10, 11]"
  by code_simp+

lemma twelve_urls:
  "map (\<lambda>i. ''https://bmc1/api/settings/fan/'' @ py_str (int i))
     [11, 3, 0, 1, 2, 4, 5, 6, 7, 8, 9, 10] =
   [''https://bmc1/api/settings/fan/11'', ''https://bmc1/api/settings/fan/3'',
    ''https://bmc1/api/settings/fan/0'', ''https://bmc1/api/settings/fan/1'',
    ''https://bmc1/api/settings/fan/2'', ''https://bmc1/api/settings/fan/4'',
    ''https://bmc1/api/settings/fan/5'', ''https://bmc1/api/settings/fan/6'',
    ''https://bmc1/api/settings/fan/7'', ''https://bmc1/api/settings/fan/8'',
    ''https://bmc1/api/settings/fan/9'', ''https://bmc1/api/settings/fan/10'']"
  by code_simp

theorem change_fans_one_put_per_fan_witness:
  "echoes echo_env \<and>
   (\<exists>s'. change_fans echo_env \<lparr>arrival = [11, 3], reported = [5]\<rparr> bmc1 30 12 fresh_proc
           = (Inr (), s') \<and>
      map req_url (trace s') =
        [''https://bmc1/api/settings/fan/11'', ''https://bmc1/api/settings/fan/3'',
         ''https://bmc1/api/settings/fan/0'', ''https://bmc1/api/settings/fan/1'',
         ''https://bmc1/api/settings/fan/2'', ''https://bmc1/api/settings/fan/4'',
         ''https://bmc1/api/settings/fan/5'', ''https://bmc1/api/settings/fan/6'',
         ''https://bmc1/api/settings/fan/7'', ''https://bmc1/api/settings/fan/8'',
         ''https://bmc1/api/settings/fan/9'', ''https://bmc1/api/settings/fan/10''] \<and>
      (\<forall>rq \<in> set (trace s').
         req_method rq = PUT \<and> req_body rq = JsonBody (JDict [(''duty'', JInt 30)]) \<and>
         req_headers rq = initial_headers) \<and>
      out s' = map (\<lambda>i. FanReport i (JInt 30)) [5, 0, 1, 2, 3, 4, 6, 7, 8, 9, 10, 11])"
proof -
  let ?sch = "\<lparr>arrival = [11, 3], reported = [5]\<rparr>"
  from change_fans_one_put_per_fan [of 12 echo_env ?sch bmc1 30 fresh_proc]
  obtain s' order lines calls printed where
    run: "change_fans echo_env ?sch bmc1 30 12 fresh_proc = (Inr (), s')"
    and order: "order = run_order (nat 12) (arrival ?sch) [0..<nat 12]"
    and tr: "trace s' = trace fresh_proc @ calls"
    and calls: "calls = map (fan_request bmc1 (Fans_headers fresh_proc) 30) order"
    and shape: "\<forall>rq \<in> set calls.
         req_method rq = PUT \<and> req_body rq = JsonBody (JDict [(''duty'', JInt 30)]) \<and>
         req_headers rq = Fans_headers fresh_proc \<and>
         (\<exists>i < nat 12.
            req_url rq = ''https://'' @ host bmc1 @ ''/api/settings/fan/'' @ py_str (int i))"
    and lines: "lines = run_order (nat 12) (reported ?sch) [0..<nat 12]"
    and out: "out s' = out fresh_proc @ printed"
    and printed: "printed = map (\<lambda>i. fan_line i (fan_outcome echo_env bmc1 30 order fresh_proc i)) lines"
    by auto
  have o: "order = [11, 3, 0, 1, 2, 4, 5, 6, 7, 8, 9, 10]"
    using order twelve_order(1) by simp
  have l: "lines = [5, 0, 1, 2, 3, 4, 6, 7, 8, 9, 10, 11]"
    using lines twelve_order(2) by simp
  have "map req_url calls =
      map (\<lambda>i. ''https://bmc1/api/settings/fan/'' @ py_str (int i)) order"
    by (simp add: calls fan_request_def fan_url_def bmc1_def init_Fans_def comp_def)
  then have urls: "map req_url (trace s') =
        [''https://bmc1/api/settings/fan/11'', ''https://bmc1/api/settings/fan/3'',
         ''https://bmc1/api/settings/fan/0'', ''https://bmc1/api/settings/fan/1'',
         ''https://bmc1/api/settings/fan/2'', ''https://bmc1/api/settings/fan/4'',
         ''https://bmc1/api/settings/fan/5'', ''https://bmc1/api/settings/fan/6'',
         ''https://bmc1/api/settings/fan/7'', ''https://bmc1/api/settings/fan/8'',
         ''https://bmc1/api/settings/fan/9'', ''https://bmc1/api/settings/fan/10'']"
    unfolding o twelve_urls by (simp add: tr fresh_proc_def)
  from shape have body: "\<forall>rq \<in> set (trace s').
         req_method rq = PUT \<and> req_body rq = JsonBody (JDict [(''duty'', JInt 30)]) \<and>
         req_headers rq = initial_headers"
    by (simp add: tr fresh_proc_def)
  have "printed = map (\<lambda>i. FanReport i (JInt 30)) lines"
    by (simp add: printed echoes_outcome [OF echo_env_echoes] fan_line_def)
  with out l have lines': "out s' = map (\<lambda>i. FanReport i (JInt 30)) [5, 0, 1, 2, 3, 4, 6, 7, 8, 9, 10, 11]"
    by (simp add: fresh_proc_def)
  from run urls body lines' have "change_fans echo_env ?sch bmc1 30 12 fresh_proc = (Inr (), s') \<and>
      map req_url (trace s') =
        [''https://bmc1/api/settings/fan/11'', ''https://bmc1/api/settings/fan/3'',
         ''https://bmc1/api/settings/fan/0'', ''https://bmc1/api/settings/fan/1'',
         ''https://bmc1/api/settings/fan/2'', ''https://bmc1/api/settings/fan/4'',
         ''https://bmc1/api/settings/fan/5'', ''https://bmc1/api/settings/fan/6'',
         ''https://bmc1/api/settings/fan/7'', ''https://bmc1/api/settings/fan/8'',
         ''https://bmc1/api/settings/fan/9'', ''https://bmc1/api/settings/fan/10''] \<and>
      (\<forall>rq \<in> set (trace s').
         req_method rq = PUT \<and> req_body rq = JsonBody (JDict [(''duty'', JInt 30)]) \<and>
         req_headers rq = initial_headers) \<and>
      out s' = map (\<lambda>i. FanReport i (JInt 30)) [5, 0, 1, 2, 3, 4, 6, 7, 8, 9, 10, 11]"
    by (intro conjI)
  then have "\<exists>s'. change_fans echo_env ?sch bmc1 30 12 fresh_proc = (Inr (), s') \<and>
      map req_url (trace s') =
        [''https://bmc1/api/settings/fan/11'', ''https://bmc1/api/settings/fan/3'',
         ''https://bmc1/api/settings/fan/0'', ''https://bmc1/api/settings/fan/1'',
         ''https://bmc1/api/settings/fan/2'', ''https://bmc1/api/settings/fan/4'',
         ''https://bmc1/api/settings/fan/5'', ''https://bmc1/api/settings/fan/6'',
         ''https://bmc1/api/settings/fan/7'', ''https://bmc1/api/settings/fan/8'',
         ''https://bmc1/api/settings/fan/9'', ''https://bmc1/api/settings/fan/10''] \<and>
      (\<forall>rq \<in> set (trace s').
         req_method rq = PUT \<and> req_body rq = JsonBody (JDict [(''duty'', JInt 30)]) \<and>
         req_headers rq = initial_headers) \<and>
      out s' = map (\<lambda>i. FanReport i (JInt 30)) [5, 0, 1, 2, 3, 4, 6, 7, 8, 9, 10, 11]"
    by (rule exI)
  with echo_env_echoes show ?thesis by (rule conjI)
qed

text \<open>
  C2. When the task of fan \<open>i\<close> ends with an exception, \<^verbatim>\<open>change_fans\<close> still returns
  normally and the exception is among the lines it prints. Every other index has its
  call made and its own line printed, a report with the duty it read or its own error,
  so there is one line per fan. If the three steps before \<^verbatim>\<open>change_fans\<close> succeeded,
  \<^verbatim>\<open>control_fan\<close> returns normally and ends with the line that says the node is
  completed.
\<close>

theorem fan_failure_is_contained:
  assumes "is_schedule (nat fans) sch" and "i < nat fans"
    and "fan_outcome env self d (arrival sch) s i = Inl e"
  shows "\<exists>s' calls lines.
     change_fans env sch self d fans s = (Inr (), s') \<and>
     trace s' = trace s @ calls \<and> out s' = out s @ lines \<and>
     length calls = nat fans \<and> length lines = nat fans \<and>
     FanError e \<in> set lines \<and>
     (\<forall>j < nat fans. j \<noteq> i \<longrightarrow>
        fan_request self (Fans_headers s) d j \<in> set calls \<and>
        (\<forall>duty. fan_outcome env self d (arrival sch) s j = Inr duty \<longrightarrow>
           FanReport j duty \<in> set lines) \<and>
        (\<forall>e'. fan_outcome env self d (arrival sch) s j = Inl e' \<longrightarrow>
           FanError e' \<in> set lines)) \<and>
     (\<forall>h u p s0 r s1 s2.
        self = init_Fans h u p \<and> get_random env self s0 = (Inr r, s1) \<and>
        get_session env self r s1 = (Inr (), s2) \<and>
        fans_mode env self ''manual'' s2 = (Inr (), s) \<longrightarrow>
        control_fan env sch h u p d fans s0 = (Inr (), print (Completed h) s'))"
proof -
  define calls where "calls = map (fan_request self (Fans_headers s) d) (arrival sch)"
  define lines where
    "lines = map (\<lambda>i. fan_line i (fan_outcome env self d (arrival sch) s i)) (reported sch)"
  define s' where "s' = s\<lparr>trace := trace s @ calls, out := out s @ lines\<rparr>"
  from assms(1) have da: "distinct (arrival sch)" and sa: "set (arrival sch) = {0..<nat fans}"
    and dr: "distinct (reported sch)" and sr: "set (reported sch) = {0..<nat fans}"
    by (simp_all add: is_schedule_def)
  from assms(2) have pos: "0 < fans" by simp
  have run: "change_fans env sch self d fans s = (Inr (), s')"
    using change_fans_total [OF assms(1), of env self d s] pos
    by (simp add: s'_def calls_def lines_def)
  have lc: "length calls = nat fans"
    using distinct_card [OF da] sa by (simp add: calls_def)
  have ll: "length lines = nat fans"
    using distinct_card [OF dr] sr by (simp add: lines_def)
  have line: "fan_line j (fan_outcome env self d (arrival sch) s j) \<in> set lines"
    if "j < nat fans" for j
    using that sr by (simp add: lines_def)
  from line [OF assms(2)] assms(3) have err: "FanError e \<in> set lines"
    by (simp add: fan_line_def)
  have others: "\<forall>j < nat fans. j \<noteq> i \<longrightarrow>
        fan_request self (Fans_headers s) d j \<in> set calls \<and>
        (\<forall>duty. fan_outcome env self d (arrival sch) s j = Inr duty \<longrightarrow>
           FanReport j duty \<in> set lines) \<and>
        (\<forall>e'. fan_outcome env self d (arrival sch) s j = Inl e' \<longrightarrow>
           FanError e' \<in> set lines)"
  proof (intro allI impI conjI)
    fix j assume j: "j < nat fans"
    with sa show "fan_request self (Fans_headers s) d j \<in> set calls"
      by (simp add: calls_def)
    {
      fix duty assume "fan_outcome env self d (arrival sch) s j = Inr duty"
      with line [OF j] show "FanReport j duty \<in> set lines" by (simp add: fan_line_def)
    }
    {
      fix e' assume "fan_outcome env self d (arrival sch) s j = Inl e'"
      with line [OF j] show "FanError e' \<in> set lines" by (simp add: fan_line_def)
    }
  qed
  have node: "\<forall>h u p s0 r s1 s2.
        self = init_Fans h u p \<and> get_random env self s0 = (Inr r, s1) \<and>
        get_session env self r s1 = (Inr (), s2) \<and>
        fans_mode env self ''manual'' s2 = (Inr (), s) \<longrightarrow>
        control_fan env sch h u p d fans s0 = (Inr (), print (Completed h) s')"
    using run by (auto simp: control_fan_def)
  have "trace s' = trace s @ calls" and "out s' = out s @ lines"
    by (simp_all add: s'_def)
  with run lc ll err others node show ?thesis by blast
qed


lemma bmc1_fan_urls:
  "fan_url bmc1 0 = ''https://bmc1/api/settings/fan/0''"
  "fan_url bmc1 (Suc 0) = ''https://bmc1/api/settings/fan/1''"
  "fan_url bmc1 2 = ''https://bmc1/api/settings/fan/2''"
  by code_simp+

lemma bmc_env_fans:
  "fan_outcome bmc_env bmc1 30 arr s 0 = Inr (JInt 30)"
  "fan_outcome bmc_env bmc1 30 arr s 1 = Inl (RequestException ''timed out'')"
  "fan_outcome bmc_env bmc1 30 arr s 2 = Inr (JInt 30)"
  by (simp_all add: fan_outcome_def fan_request_def bmc1_fan_urls bmc_env_def flaky_env_def
      echo_env_def read_duty_def)

lemma bmc_env_random:
  "get_random bmc_env bmc1 s = (Inr (JStr ''r1''), snd (get_random bmc_env bmc1 s))"
  by (simp add: get_random_def send_def random_request_def bmc_env_def case_prod_beta)

lemma bmc_env_session:
  "get_session bmc_env bmc1 r s = (Inr (), snd (get_session bmc_env bmc1 r s))"
  by (simp add: get_session_def send_def session_request_def bmc_env_def login_response_def
      login_tokens Let_def case_prod_beta)

lemma bmc_env_mode:
  "fans_mode bmc_env bmc1 m s = (Inr (), snd (fans_mode bmc_env bmc1 m s))"
  by (simp add: fans_mode_def send_def mode_request_def bmc_env_def flaky_env_def echo_env_def
      case_prod_beta)

theorem fan_failure_is_contained_witness:
  "is_schedule (nat 3) three_fans \<and> (1 :: nat) < nat 3 \<and>
   (\<exists>s3 s'. fan_outcome bmc_env bmc1 30 (arrival three_fans) s3 1 =
               Inl (RequestException ''timed out'') \<and>
      control_fan bmc_env three_fans ''bmc1'' ''admin'' ''admin'' 30 3 fresh_proc = (Inr (), s') \<and>
      FanError (RequestException ''timed out'') \<in> set (out s') \<and>
      FanReport 0 (JInt 30) \<in> set (out s') \<and>
      FanReport 2 (JInt 30) \<in> set (out s') \<and>
      last (out s') = Completed ''bmc1'')"
proof -
  define s1 where "s1 = snd (get_random bmc_env bmc1 fresh_proc)"
  define s2 where "s2 = snd (get_session bmc_env bmc1 (JStr ''r1'') s1)"
  define s3 where "s3 = snd (fans_mode bmc_env bmc1 ''manual'' s2)"
  have sch: "is_schedule (nat 3) three_fans" by (simp add: three_fans_schedule)
  have i: "(1 :: nat) < nat 3" by simp
  have f: "fan_outcome bmc_env bmc1 30 (arrival three_fans) s3 1 = Inl (RequestException ''timed out'')"
    by (rule bmc_env_fans)
  have steps: "bmc1 = init_Fans ''bmc1'' ''admin'' ''admin'' \<and>
      get_random bmc_env bmc1 fresh_proc = (Inr (JStr ''r1''), s1) \<and>
      get_session bmc_env bmc1 (JStr ''r1'') s1 = (Inr (), s2) \<and>
      fans_mode bmc_env bmc1 ''manual'' s2 = (Inr (), s3)"
    unfolding s1_def s2_def s3_def
    using bmc_env_random bmc_env_session bmc_env_mode by (simp add: bmc1_def)
  from fan_failure_is_contained [OF sch i f]
  obtain s' and calls :: "request list" and lines where
    "out s' = out s3 @ lines" and "FanError (RequestException ''timed out'') \<in> set lines"
    and sib: "\<forall>j < nat 3. j \<noteq> 1 \<longrightarrow>
        (\<forall>duty. fan_outcome bmc_env bmc1 30 (arrival three_fans) s3 j = Inr duty \<longrightarrow>
           FanReport j duty \<in> set lines)"
    and node: "\<forall>h u p s0 r s1 s2.
        bmc1 = init_Fans h u p \<and> get_random bmc_env bmc1 s0 = (Inr r, s1) \<and>
        get_session bmc_env bmc1 r s1 = (Inr (), s2) \<and>
        fans_mode bmc_env bmc1 ''manual'' s2 = (Inr (), s3) \<longrightarrow>
        control_fan bmc_env three_fans h u p 30 3 s0 = (Inr (), print (Completed h) s')"
    by blast
  from node steps
  have run: "control_fan bmc_env three_fans ''bmc1'' ''admin'' ''admin'' 30 3 fresh_proc
      = (Inr (), print (Completed ''bmc1'') s')"
    by blast
  from sib [rule_format, of 0] sib [rule_format, of 2]
  have "FanReport 0 (JInt 30) \<in> set lines" and "FanReport 2 (JInt 30) \<in> set lines"
    by (simp_all add: bmc_env_fans)
  with \<open>out s' = out s3 @ lines\<close> \<open>FanError (RequestException ''timed out'') \<in> set lines\<close>
  have "FanError (RequestException ''timed out'') \<in> set (out (print (Completed ''bmc1'') s')) \<and>
      FanReport 0 (JInt 30) \<in> set (out (print (Completed ''bmc1'') s')) \<and>
      FanReport 2 (JInt 30) \<in> set (out (print (Completed ''bmc1'') s')) \<and>
      last (out (print (Completed ''bmc1'') s')) = Completed ''bmc1''"
    by (simp add: print_def)
  with run f sch i show ?thesis by blast
qed

section \<open>Facts about the steps of a worker\<close>

lemma get_random_effect:
  "snd (get_random env self s) = s\<lparr>trace := trace s @ [random_request self (Fans_headers s)]\<rparr>"
  by (simp add: get_random_def send_def case_prod_beta split: sum.split option.split)

lemma get_session_effect:
  "trace (snd (get_session env self r s)) =
     trace s @ [session_request self
                  (dict_set ''content-type''
                     (JStr ''application/x-www-form-urlencoded; charset=UTF-8'') (Fans_headers s)) r]
   \<and> out (snd (get_session env self r s)) = out s"
  by (simp add: get_session_def send_def Let_def case_prod_beta split: sum.split option.split)

lemma fans_mode_effect:
  "trace (snd (fans_mode env self m s)) = trace s @ [mode_request self (Fans_headers s) m] \<and>
   Fans_headers (snd (fans_mode env self m s)) = Fans_headers s \<and>
   (\<forall>e. fst (fans_mode env self m s) = Inl e \<longrightarrow> out (snd (fans_mode env self m s)) = out s)"
  by (simp add: fans_mode_def send_def print_def case_prod_beta split: sum.split)

lemma run_workers_nth:
  "j < length hosts \<Longrightarrow>
   run_workers envs scheds hosts r fans ! j =
     control_fan (envs j) (scheds j) (hosts ! j) ''admin'' ''admin'' r fans fresh_proc"
  by (simp add: run_workers_def nth_enumerate_eq)

lemma run_workers_length: "length (run_workers envs scheds hosts r fans) = length hosts"
  by (simp add: run_workers_def)



lemma cf_random_fail:
  "get_random env (init_Fans h u p) s = (Inl e, s1) \<Longrightarrow>
   control_fan env sch h u p d fans s = (Inl e, s1)"
  by (simp add: control_fan_def)

lemma cf_session_fail:
  "get_random env (init_Fans h u p) s = (Inr r, s1) \<Longrightarrow>
   get_session env (init_Fans h u p) r s1 = (Inl e, s2) \<Longrightarrow>
   control_fan env sch h u p d fans s = (Inl e, s2)"
  by (simp add: control_fan_def)

lemma cf_mode_fail:
  "get_random env (init_Fans h u p) s = (Inr r, s1) \<Longrightarrow>
   get_session env (init_Fans h u p) r s1 = (Inr (), s2) \<Longrightarrow>
   fans_mode env (init_Fans h u p) ''manual'' s2 = (Inl e, s3) \<Longrightarrow>
   control_fan env sch h u p d fans s = (Inl e, s3)"
  by (simp add: control_fan_def)

lemma cf_fans:
  "get_random env (init_Fans h u p) s = (Inr r, s1) \<Longrightarrow>
   get_session env (init_Fans h u p) r s1 = (Inr (), s2) \<Longrightarrow>
   fans_mode env (init_Fans h u p) ''manual'' s2 = (Inr (), s3) \<Longrightarrow>
   change_fans env sch (init_Fans h u p) d fans s3 = (x, s4) \<Longrightarrow>
   control_fan env sch h u p d fans s =
     (case x of Inl e \<Rightarrow> (Inl e, s4) | Inr _ \<Rightarrow> (Inr (), print (Completed h) s4))"
  by (simp add: control_fan_def split: sum.split)


section \<open>The sequence of a node worker\<close>

text \<open>
  C3. \<^verbatim>\<open>control_fan\<close> makes its calls in one fixed order: the challenge, the login, the
  mode, then the calls of the fan tasks, each step once. When a step raises, the
  worker ends with that exception and the call of that step is the last one it has
  made: a failed challenge leaves one call, a failed login two, a failed mode call
  three and no call for any fan. The fan calls appear only after the mode call has
  returned. The workers that \<^verbatim>\<open>main\<close> starts are all started, and how one of them
  runs is fixed by its own host, its own view of the network and its own schedule,
  whatever happens to the others.
\<close>

theorem control_fan_is_sequential:
  assumes "node = init_Fans h u p" and "is_schedule (nat fans) sch"
    and "rq1 = random_request node (Fans_headers s)"
    and "hdrs = dict_set ''content-type''
                  (JStr ''application/x-www-form-urlencoded; charset=UTF-8'') (Fans_headers s)"
  shows
    "(\<forall>e s1. get_random env node s = (Inl e, s1) \<longrightarrow>
        control_fan env sch h u p d fans s = (Inl e, s1) \<and>
        trace s1 = trace s @ [rq1] \<and> out s1 = out s) \<and>
     (\<forall>r s1 e s2.
        get_random env node s = (Inr r, s1) \<and> get_session env node r s1 = (Inl e, s2) \<longrightarrow>
        control_fan env sch h u p d fans s = (Inl e, s2) \<and>
        trace s2 = trace s @ [rq1, session_request node hdrs r] \<and> out s2 = out s) \<and>
     (\<forall>r s1 s2 e s3.
        get_random env node s = (Inr r, s1) \<and> get_session env node r s1 = (Inr (), s2) \<and>
        fans_mode env node ''manual'' s2 = (Inl e, s3) \<longrightarrow>
        control_fan env sch h u p d fans s = (Inl e, s3) \<and>
        trace s3 = trace s @ [rq1, session_request node hdrs r,
                              mode_request node (Fans_headers s2) ''manual''] \<and>
        out s3 = out s) \<and>
     (\<forall>r s1 s2 s3.
        get_random env node s = (Inr r, s1) \<and> get_session env node r s1 = (Inr (), s2) \<and>
        fans_mode env node ''manual'' s2 = (Inr (), s3) \<longrightarrow>
        (\<exists>s4. control_fan env sch h u p d fans s =
                 (if 0 < fans then (Inr (), print (Completed h) s4) else (Inl ValueError, s4)) \<and>
           trace s4 = trace s @ [rq1, session_request node hdrs r,
                                 mode_request node (Fans_headers s2) ''manual'']
                        @ map (fan_request node (Fans_headers s2) d) (arrival sch) \<and>
           length (arrival sch) = nat fans)) \<and>
     (\<forall>envs scheds hosts j. j < length hosts \<longrightarrow>
        length (run_workers envs scheds hosts d fans) = length hosts \<and>
        run_workers envs scheds hosts d fans ! j =
          control_fan (envs j) (scheds j) (hosts ! j) ''admin'' ''admin'' d fans fresh_proc)"
proof -
  have t1: "trace s1 = trace s @ [rq1] \<and> out s1 = out s \<and> Fans_headers s1 = Fans_headers s"
    if "get_random env node s = (x, s1)" for x s1
    using get_random_effect [of env node s] that by (simp add: assms(3))
  have t2: "trace s2 = trace s1 @ [session_request node hdrs r] \<and> out s2 = out s1"
    if "get_session env node r s1 = (x, s2)" "Fans_headers s1 = Fans_headers s" for x r s1 s2
    using get_session_effect [of env node r s1] that by (simp add: assms(4))
  have t3: "trace s3 = trace s2 @ [mode_request node (Fans_headers s2) ''manual''] \<and>
      Fans_headers s3 = Fans_headers s2 \<and> (\<forall>e. x = Inl e \<longrightarrow> out s3 = out s2)"
    if "fans_mode env node ''manual'' s2 = (x, s3)" for x s2 s3
    using fans_mode_effect [of env node "''manual''" s2] that by simp
  have c1: "\<forall>e s1. get_random env node s = (Inl e, s1) \<longrightarrow>
        control_fan env sch h u p d fans s = (Inl e, s1) \<and>
        trace s1 = trace s @ [rq1] \<and> out s1 = out s"
  proof (intro allI impI)
    fix e s1
    assume a: "get_random env node s = (Inl e, s1)"
    from a have "control_fan env sch h u p d fans s = (Inl e, s1)"
      unfolding assms(1) by (rule cf_random_fail)
    with t1 [OF a] show "control_fan env sch h u p d fans s = (Inl e, s1) \<and>
        trace s1 = trace s @ [rq1] \<and> out s1 = out s"
      by simp
  qed
  have c2: "\<forall>r s1 e s2.
        get_random env node s = (Inr r, s1) \<and> get_session env node r s1 = (Inl e, s2) \<longrightarrow>
        control_fan env sch h u p d fans s = (Inl e, s2) \<and>
        trace s2 = trace s @ [rq1, session_request node hdrs r] \<and> out s2 = out s"
  proof (intro allI impI, elim conjE)
    fix r s1 e s2
    assume a: "get_random env node s = (Inr r, s1)" and b: "get_session env node r s1 = (Inl e, s2)"
    from a b have "control_fan env sch h u p d fans s = (Inl e, s2)"
      unfolding assms(1) by (rule cf_session_fail)
    moreover from t1 [OF a] have h1: "Fans_headers s1 = Fans_headers s" by simp
    note t1 [OF a] t2 [OF b h1]
    ultimately
    show "control_fan env sch h u p d fans s = (Inl e, s2) \<and>
        trace s2 = trace s @ [rq1, session_request node hdrs r] \<and> out s2 = out s"
      by simp
  qed
  have c3: "\<forall>r s1 s2 e s3.
        get_random env node s = (Inr r, s1) \<and> get_session env node r s1 = (Inr (), s2) \<and>
        fans_mode env node ''manual'' s2 = (Inl e, s3) \<longrightarrow>
        control_fan env sch h u p d fans s = (Inl e, s3) \<and>
        trace s3 = trace s @ [rq1, session_request node hdrs r,
                              mode_request node (Fans_headers s2) ''manual''] \<and>
        out s3 = out s"
  proof (intro allI impI, elim conjE)
    fix r s1 s2 e s3
    assume a: "get_random env node s = (Inr r, s1)" and b: "get_session env node r s1 = (Inr (), s2)"
      and c: "fans_mode env node ''manual'' s2 = (Inl e, s3)"
    from a b c have "control_fan env sch h u p d fans s = (Inl e, s3)"
      unfolding assms(1) by (rule cf_mode_fail)
    moreover from t1 [OF a] have h1: "Fans_headers s1 = Fans_headers s" by simp
    note t1 [OF a] t2 [OF b h1] t3 [OF c]
    ultimately
    show "control_fan env sch h u p d fans s = (Inl e, s3) \<and>
        trace s3 = trace s @ [rq1, session_request node hdrs r,
                              mode_request node (Fans_headers s2) ''manual''] \<and>
        out s3 = out s"
      by simp
  qed
  have c4: "\<forall>r s1 s2 s3.
        get_random env node s = (Inr r, s1) \<and> get_session env node r s1 = (Inr (), s2) \<and>
        fans_mode env node ''manual'' s2 = (Inr (), s3) \<longrightarrow>
        (\<exists>s4. control_fan env sch h u p d fans s =
                 (if 0 < fans then (Inr (), print (Completed h) s4) else (Inl ValueError, s4)) \<and>
           trace s4 = trace s @ [rq1, session_request node hdrs r,
                                 mode_request node (Fans_headers s2) ''manual'']
                        @ map (fan_request node (Fans_headers s2) d) (arrival sch) \<and>
           length (arrival sch) = nat fans)"
  proof (intro allI impI, elim conjE)
    fix r s1 s2 s3
    assume a: "get_random env node s = (Inr r, s1)" and b: "get_session env node r s1 = (Inr (), s2)"
      and c: "fans_mode env node ''manual'' s2 = (Inr (), s3)"
    define s4 where "s4 = snd (change_fans env sch node d fans s3)"
    have cf: "change_fans env sch node d fans s3 = (if 0 < fans then Inr () else Inl ValueError, s4)"
      and tr: "trace s4 = trace s3 @ map (fan_request node (Fans_headers s3) d) (arrival sch)"
      unfolding s4_def by (simp_all add: change_fans_total [OF assms(2)])
    from assms(2) have len: "length (arrival sch) = nat fans"
      using distinct_card [of "arrival sch"] by (simp add: is_schedule_def)
    from a b c cf have "control_fan env sch h u p d fans s =
        (case (if 0 < fans then Inr () else Inl ValueError) of
           Inl e \<Rightarrow> (Inl e, s4) | Inr _ \<Rightarrow> (Inr (), print (Completed h) s4))"
      unfolding assms(1) by (rule cf_fans)
    then have run: "control_fan env sch h u p d fans s =
        (if 0 < fans then (Inr (), print (Completed h) s4) else (Inl ValueError, s4))"
      by simp
    from t1 [OF a] have h1: "Fans_headers s1 = Fans_headers s" by simp
    from t1 [OF a] t2 [OF b h1] t3 [OF c] tr run len
    show "\<exists>s4. control_fan env sch h u p d fans s =
                 (if 0 < fans then (Inr (), print (Completed h) s4) else (Inl ValueError, s4)) \<and>
           trace s4 = trace s @ [rq1, session_request node hdrs r,
                                 mode_request node (Fans_headers s2) ''manual'']
                        @ map (fan_request node (Fans_headers s2) d) (arrival sch) \<and>
           length (arrival sch) = nat fans"
      by (intro exI [of _ s4]) simp
  qed
  have c5: "\<forall>envs scheds hosts j. j < length hosts \<longrightarrow>
        length (run_workers envs scheds hosts d fans) = length hosts \<and>
        run_workers envs scheds hosts d fans ! j =
          control_fan (envs j) (scheds j) (hosts ! j) ''admin'' ''admin'' d fans fresh_proc"
    by (simp add: run_workers_nth run_workers_length)
  show ?thesis
    by (rule conjI [OF c1 conjI [OF c2 conjI [OF c3 conjI [OF c4 c5]]]])
qed


lemma stale_env_random:
  "get_random stale_env bmc1 s = (Inr (JStr ''r1''), snd (get_random stale_env bmc1 s))"
  by (simp add: get_random_def send_def random_request_def stale_env_def bmc_env_def
      case_prod_beta)

lemma stale_env_session:
  "get_session stale_env bmc1 r s = (Inl IndexError, snd (get_session stale_env bmc1 r s))"
  by (simp add: get_session_def send_def session_request_def stale_env_def stale_response_def
      stale_tokens Let_def case_prod_beta)

lemma down_env_random:
  "get_random down_env bmc1 s = (Inl (RequestException ''refused''), snd (get_random down_env bmc1 s))"
  by (simp add: get_random_def send_def down_env_def case_prod_beta)

lemma mode_down_env_steps:
  "get_random mode_down_env bmc1 s = (Inr (JStr ''r1''), snd (get_random mode_down_env bmc1 s))"
  "get_session mode_down_env bmc1 r s = (Inr (), snd (get_session mode_down_env bmc1 r s))"
  "fans_mode mode_down_env bmc1 m s =
     (Inl (RequestException ''refused''), snd (fans_mode mode_down_env bmc1 m s))"
  by (simp_all add: get_random_def get_session_def fans_mode_def send_def random_request_def
      session_request_def mode_request_def mode_down_env_def bmc_env_def login_response_def
      login_tokens Let_def case_prod_beta)


theorem control_fan_is_sequential_witness:
  "bmc1 = init_Fans ''bmc1'' ''admin'' ''admin'' \<and> is_schedule (nat 3) three_fans \<and>
   (\<exists>s'. control_fan bmc_env three_fans ''bmc1'' ''admin'' ''admin'' 30 3 fresh_proc = (Inr (), s') \<and>
      map req_url (trace s') =
        [''https://bmc1/api/randomtag'', ''https://bmc1/api/session'',
         ''https://bmc1/api/settings/fans-mode'', ''https://bmc1/api/settings/fan/2'',
         ''https://bmc1/api/settings/fan/0'', ''https://bmc1/api/settings/fan/1'']) \<and>
   (\<exists>s'. control_fan down_env three_fans ''bmc1'' ''admin'' ''admin'' 30 3 fresh_proc =
           (Inl (RequestException ''refused''), s') \<and>
      map req_url (trace s') = [''https://bmc1/api/randomtag'']) \<and>
   (\<exists>s'. control_fan stale_env three_fans ''bmc1'' ''admin'' ''admin'' 30 3 fresh_proc =
           (Inl IndexError, s') \<and>
      map req_url (trace s') = [''https://bmc1/api/randomtag'', ''https://bmc1/api/session'']) \<and>
   (\<exists>s'. control_fan mode_down_env three_fans ''bmc1'' ''admin'' ''admin'' 30 3 fresh_proc =
           (Inl (RequestException ''refused''), s') \<and>
      map req_url (trace s') =
        [''https://bmc1/api/randomtag'', ''https://bmc1/api/session'',
         ''https://bmc1/api/settings/fans-mode'']) \<and>
   run_workers (\<lambda>j. if j = 0 then down_env else bmc_env) (\<lambda>j. three_fans) [''bmc0'', ''bmc1''] 30 3 ! 1
     = control_fan bmc_env three_fans ''bmc1'' ''admin'' ''admin'' 30 3 fresh_proc"
proof -
  have sch: "is_schedule (nat 3) three_fans" by (simp add: three_fans_schedule)
  have urls: "req_url (random_request bmc1 hd1) = ''https://bmc1/api/randomtag''"
    "req_url (session_request bmc1 hd2 r) = ''https://bmc1/api/session''"
    "req_url (mode_request bmc1 hd3 m) = ''https://bmc1/api/settings/fans-mode''"
    for hd1 hd2 hd3 r m
    by (simp_all add: random_request_def session_request_def mode_request_def bmc1_def
        init_Fans_def)
  define s1 where "s1 = snd (get_random bmc_env bmc1 fresh_proc)"
  define s2 where "s2 = snd (get_session bmc_env bmc1 (JStr ''r1'') s1)"
  define s3 where "s3 = snd (fans_mode bmc_env bmc1 ''manual'' s2)"
  have steps: "get_random bmc_env bmc1 fresh_proc = (Inr (JStr ''r1''), s1) \<and>
      get_session bmc_env bmc1 (JStr ''r1'') s1 = (Inr (), s2) \<and>
      fans_mode bmc_env bmc1 ''manual'' s2 = (Inr (), s3)"
    unfolding s1_def s2_def s3_def
    using bmc_env_random bmc_env_session bmc_env_mode by simp
  note good = control_fan_is_sequential [OF bmc1_def sch refl refl, of bmc_env fresh_proc 30]
  from good [THEN conjunct2, THEN conjunct2, THEN conjunct2, THEN conjunct1, rule_format,
      OF steps]
  obtain s4 where
    "control_fan bmc_env three_fans ''bmc1'' ''admin'' ''admin'' 30 3 fresh_proc
       = (Inr (), print (Completed ''bmc1'') s4)"
    and "map req_url (trace s4) =
        [''https://bmc1/api/randomtag'', ''https://bmc1/api/session'',
         ''https://bmc1/api/settings/fans-mode'', ''https://bmc1/api/settings/fan/2'',
         ''https://bmc1/api/settings/fan/0'', ''https://bmc1/api/settings/fan/1'']"
    by (auto simp: urls fan_request_url bmc1_fan_urls three_fans_def fresh_proc_def)
  then have a: "\<exists>s'. control_fan bmc_env three_fans ''bmc1'' ''admin'' ''admin'' 30 3 fresh_proc
        = (Inr (), s') \<and>
      map req_url (trace s') =
        [''https://bmc1/api/randomtag'', ''https://bmc1/api/session'',
         ''https://bmc1/api/settings/fans-mode'', ''https://bmc1/api/settings/fan/2'',
         ''https://bmc1/api/settings/fan/0'', ''https://bmc1/api/settings/fan/1'']"
    by (intro exI [of _ "print (Completed ''bmc1'') s4"]) (simp add: print_def)
  define d1 where "d1 = snd (get_random down_env bmc1 fresh_proc)"
  have down: "get_random down_env bmc1 fresh_proc = (Inl (RequestException ''refused''), d1)"
    unfolding d1_def by (rule down_env_random)
  note dead = control_fan_is_sequential [OF bmc1_def sch refl refl, of down_env fresh_proc 30]
  from dead [THEN conjunct1, rule_format, OF down]
  have b: "\<exists>s'. control_fan down_env three_fans ''bmc1'' ''admin'' ''admin'' 30 3 fresh_proc =
           (Inl (RequestException ''refused''), s') \<and>
      map req_url (trace s') = [''https://bmc1/api/randomtag'']"
    by (intro exI [of _ d1]) (simp add: urls fresh_proc_def)
  define t1 where "t1 = snd (get_random stale_env bmc1 fresh_proc)"
  define t2 where "t2 = snd (get_session stale_env bmc1 (JStr ''r1'') t1)"
  have fail: "get_random stale_env bmc1 fresh_proc = (Inr (JStr ''r1''), t1) \<and>
      get_session stale_env bmc1 (JStr ''r1'') t1 = (Inl IndexError, t2)"
    unfolding t1_def t2_def using stale_env_random stale_env_session by simp
  note bad = control_fan_is_sequential [OF bmc1_def sch refl refl, of stale_env fresh_proc 30]
  from bad [THEN conjunct2, THEN conjunct1, rule_format, OF fail]
  have c: "\<exists>s'. control_fan stale_env three_fans ''bmc1'' ''admin'' ''admin'' 30 3 fresh_proc =
           (Inl IndexError, s') \<and>
      map req_url (trace s') = [''https://bmc1/api/randomtag'', ''https://bmc1/api/session'']"
    by (intro exI [of _ t2]) (simp add: urls fresh_proc_def)
  define m1 where "m1 = snd (get_random mode_down_env bmc1 fresh_proc)"
  define m2 where "m2 = snd (get_session mode_down_env bmc1 (JStr ''r1'') m1)"
  define m3 where "m3 = snd (fans_mode mode_down_env bmc1 ''manual'' m2)"
  have mfail: "get_random mode_down_env bmc1 fresh_proc = (Inr (JStr ''r1''), m1) \<and>
      get_session mode_down_env bmc1 (JStr ''r1'') m1 = (Inr (), m2) \<and>
      fans_mode mode_down_env bmc1 ''manual'' m2 = (Inl (RequestException ''refused''), m3)"
    unfolding m1_def m2_def m3_def using mode_down_env_steps by simp
  note mbad = control_fan_is_sequential [OF bmc1_def sch refl refl, of mode_down_env fresh_proc 30]
  from mbad [THEN conjunct2, THEN conjunct2, THEN conjunct1, rule_format, OF mfail]
  have d: "\<exists>s'. control_fan mode_down_env three_fans ''bmc1'' ''admin'' ''admin'' 30 3 fresh_proc =
           (Inl (RequestException ''refused''), s') \<and>
      map req_url (trace s') =
        [''https://bmc1/api/randomtag'', ''https://bmc1/api/session'',
         ''https://bmc1/api/settings/fans-mode'']"
    by (intro exI [of _ m3]) (simp add: urls fresh_proc_def)
  from good [THEN conjunct2, THEN conjunct2, THEN conjunct2, THEN conjunct2, rule_format,
      of 1 "[''bmc0'', ''bmc1'']" "\<lambda>j. if j = 0 then down_env else bmc_env" "\<lambda>j. three_fans"]
  have e: "run_workers (\<lambda>j. if j = 0 then down_env else bmc_env) (\<lambda>j. three_fans)
        [''bmc0'', ''bmc1''] 30 3 ! 1
      = control_fan bmc_env three_fans ''bmc1'' ''admin'' ''admin'' 30 3 fresh_proc"
    by simp
  from bmc1_def sch a b c d e show ?thesis by (intro conjI)
qed

section \<open>Facts about the first call of a worker\<close>

lemma get_session_success:
  assumes "get_session env self r s = (Inr u, s')"
  shows "\<exists>token csrf.
     Fans_headers s' =
       dict_set ''content-type'' (JStr ''application/json'')
         (dict_set ''Cookie'' (JStr (session_cookie token))
            (dict_set ''X-Csrftoken'' csrf
               (dict_set ''content-type''
                  (JStr ''application/x-www-form-urlencoded; charset=UTF-8'') (Fans_headers s))))"
proof -
  from assms obtain token csrf s1 where
    "s' = s1\<lparr>Fans_headers :=
            dict_set ''content-type'' (JStr ''application/json'')
              (dict_set ''Cookie'' (JStr (session_cookie token))
                 (dict_set ''X-Csrftoken'' csrf
                    (dict_set ''content-type''
                       (JStr ''application/x-www-form-urlencoded; charset=UTF-8'')
                       (Fans_headers s))))\<rparr>"
    by (auto simp: get_session_unfold [OF refl refl refl] split: sum.splits option.splits)
  then have "Fans_headers s' =
       dict_set ''content-type'' (JStr ''application/json'')
         (dict_set ''Cookie'' (JStr (session_cookie token))
            (dict_set ''X-Csrftoken'' csrf
               (dict_set ''content-type''
                  (JStr ''application/x-www-form-urlencoded; charset=UTF-8'') (Fans_headers s))))"
    by simp
  then show ?thesis by (intro exI)
qed

lemma change_fans_trace:
  "\<exists>calls. trace (snd (change_fans env sch self d fans s)) = trace s @ calls"
proof (cases "0 < fans")
  case True
  then show ?thesis by (simp add: change_fans_unfold)
next
  case False
  then show ?thesis by (simp add: change_fans_refused)
qed

lemma control_fan_first_call:
  "\<exists>rest. trace (snd (control_fan env sch h u p d fans s)) =
     trace s @ random_request (init_Fans h u p) (Fans_headers s) # rest"
proof -
  let ?node = "init_Fans h u p"
  obtain x s1 where a: "get_random env ?node s = (x, s1)" by (cases "get_random env ?node s")
  with get_random_effect [of env ?node s]
  have t1: "trace s1 = trace s @ [random_request ?node (Fans_headers s)]" by simp
  show ?thesis
  proof (cases x)
    case (Inl e)
    with a cf_random_fail [of env h u p s e s1 sch d fans] t1 show ?thesis by simp
  next
    case r: (Inr r)
    obtain y s2 where b: "get_session env ?node r s1 = (y, s2)"
      by (cases "get_session env ?node r s1")
    with get_session_effect [of env ?node r s1]
    have t2: "\<exists>c. trace s2 = trace s1 @ c" by simp
    show ?thesis
    proof (cases y)
      case (Inl e)
      with a b r cf_session_fail [of env h u p s r s1 e s2 sch d fans] t1 t2 show ?thesis by auto
    next
      case (Inr v)
      obtain z s3 where c: "fans_mode env ?node ''manual'' s2 = (z, s3)"
        by (cases "fans_mode env ?node ''manual'' s2")
      with fans_mode_effect [of env ?node "''manual''" s2]
      have t3: "\<exists>c. trace s3 = trace s2 @ c" by simp
      show ?thesis
      proof (cases z)
        case (Inl e)
        with a b c r Inr cf_mode_fail [of env h u p s r s1 s2 e s3 sch d fans] t1 t2 t3
        show ?thesis by auto
      next
        case w: (Inr w)
        obtain q s4 where f: "change_fans env sch ?node d fans s3 = (q, s4)"
          by (cases "change_fans env sch ?node d fans s3")
        with change_fans_trace [of env sch ?node d fans s3]
        have t4: "\<exists>c. trace s4 = trace s3 @ c" by simp
        from a b c f r Inr w cf_fans [of env h u p s r s1 s2 s3 sch d fans q s4]
        have "control_fan env sch h u p d fans s =
            (case q of Inl e \<Rightarrow> (Inl e, s4) | Inr _ \<Rightarrow> (Inr (), print (Completed h) s4))"
          by simp
        then have "trace (snd (control_fan env sch h u p d fans s)) = trace s4"
          by (cases q) (simp_all add: print_def)
        with t1 t2 t3 t4 show ?thesis by auto
      qed
    qed
  qed
qed


section \<open>One header dict per process\<close>

text \<open>
  C10. The header dict belongs to the class, so to the process, not to an instance.
  After a login made through one instance, the dict holds that session's Cookie and
  X-Csrftoken and the JSON content type, and the calls of every other instance in
  the same process carry them: the first call of a second \<^verbatim>\<open>control_fan\<close> run in that
  process, to whatever host, is made with these headers. Nothing in the class keeps
  the sessions of two nodes apart. What keeps them apart is that \<^verbatim>\<open>main\<close> runs each
  worker in a process of its own: every worker starts from the header dict of a
  fresh import, which has neither Cookie nor X-Csrftoken, and runs as \<^verbatim>\<open>control_fan\<close>
  on that state.
\<close>

theorem headers_shared_within_process:
  assumes "get_session env a r s = (Inr (), s1)"
  shows "\<exists>token csrf.
     map_of (Fans_headers s1) ''Cookie'' = Some (JStr (session_cookie token)) \<and>
     map_of (Fans_headers s1) ''X-Csrftoken'' = Some csrf \<and>
     map_of (Fans_headers s1) ''content-type'' = Some (JStr ''application/json'') \<and>
     (\<forall>b env2.
        last (trace (snd (get_random env2 b s1))) = random_request b (Fans_headers s1) \<and>
        req_headers (random_request b (Fans_headers s1)) = Fans_headers s1) \<and>
     (\<forall>env2 sch2 h2 u2 p2 d fans.
        \<exists>rest. trace (snd (control_fan env2 sch2 h2 u2 p2 d fans s1)) =
                 trace s1 @ random_request (init_Fans h2 u2 p2) (Fans_headers s1) # rest) \<and>
     (\<forall>envs scheds hosts d fans j. j < length hosts \<longrightarrow>
        run_workers envs scheds hosts d fans ! j =
          control_fan (envs j) (scheds j) (hosts ! j) ''admin'' ''admin'' d fans fresh_proc \<and>
        (\<exists>rest. trace (snd (run_workers envs scheds hosts d fans ! j)) =
                  random_request (init_Fans (hosts ! j) ''admin'' ''admin'') initial_headers
                    # rest)) \<and>
     map_of initial_headers ''Cookie'' = None \<and>
     map_of initial_headers ''X-Csrftoken'' = None"
proof -
  from get_session_success [OF assms] obtain token csrf where
    h: "Fans_headers s1 =
       dict_set ''content-type'' (JStr ''application/json'')
         (dict_set ''Cookie'' (JStr (session_cookie token))
            (dict_set ''X-Csrftoken'' csrf
               (dict_set ''content-type''
                  (JStr ''application/x-www-form-urlencoded; charset=UTF-8'') (Fans_headers s))))"
    by blast
  have c1: "map_of (Fans_headers s1) ''Cookie'' = Some (JStr (session_cookie token))"
    and c2: "map_of (Fans_headers s1) ''X-Csrftoken'' = Some csrf"
    and c3: "map_of (Fans_headers s1) ''content-type'' = Some (JStr ''application/json'')"
    by (simp_all add: h map_of_dict_set)
  have c4: "\<forall>b env2.
        last (trace (snd (get_random env2 b s1))) = random_request b (Fans_headers s1) \<and>
        req_headers (random_request b (Fans_headers s1)) = Fans_headers s1"
    by (simp add: get_random_effect random_request_def)
  have c5: "\<forall>env2 sch2 h2 u2 p2 d fans.
        \<exists>rest. trace (snd (control_fan env2 sch2 h2 u2 p2 d fans s1)) =
                 trace s1 @ random_request (init_Fans h2 u2 p2) (Fans_headers s1) # rest"
    by (intro allI) (rule control_fan_first_call)
  have c6: "\<forall>envs scheds hosts d fans j. j < length hosts \<longrightarrow>
        run_workers envs scheds hosts d fans ! j =
          control_fan (envs j) (scheds j) (hosts ! j) ''admin'' ''admin'' d fans fresh_proc \<and>
        (\<exists>rest. trace (snd (run_workers envs scheds hosts d fans ! j)) =
                  random_request (init_Fans (hosts ! j) ''admin'' ''admin'') initial_headers
                    # rest)"
  proof (intro allI impI)
    fix envs :: "nat \<Rightarrow> env" and scheds :: "nat \<Rightarrow> sched" and hosts :: "string list"
      and d fans :: int and j :: nat
    assume j: "j < length hosts"
    from control_fan_first_call [of "envs j" "scheds j" "hosts ! j" "''admin''" "''admin''"
        d fans fresh_proc]
    obtain rest where "trace (snd (control_fan (envs j) (scheds j) (hosts ! j) ''admin'' ''admin''
          d fans fresh_proc)) =
        random_request (init_Fans (hosts ! j) ''admin'' ''admin'') initial_headers # rest"
      by (auto simp: fresh_proc_def)
    with run_workers_nth [OF j, of envs scheds d fans]
    show "run_workers envs scheds hosts d fans ! j =
          control_fan (envs j) (scheds j) (hosts ! j) ''admin'' ''admin'' d fans fresh_proc \<and>
        (\<exists>rest. trace (snd (run_workers envs scheds hosts d fans ! j)) =
                  random_request (init_Fans (hosts ! j) ''admin'' ''admin'') initial_headers
                    # rest)"
      by simp
  qed
  have c7: "map_of initial_headers ''Cookie'' = None"
    and c8: "map_of initial_headers ''X-Csrftoken'' = None"
    by (simp_all add: initial_headers_def)
  from c1 c2 c3 c4 c5 c6 c7 c8 show ?thesis by (intro exI conjI)
qed

theorem headers_shared_within_process_witness:
  "\<exists>s1. get_session bmc_env bmc1 (JStr ''r1'') fresh_proc = (Inr (), s1) \<and>
     map_of (Fans_headers s1) ''Cookie'' =
       Some (JStr ''lang=zh-cn;QSESSIONID=abc123; refresh_disable=1'') \<and>
     map_of (req_headers (last (trace
        (snd (get_random echo_env (init_Fans ''bmc2'' ''admin'' ''admin'') s1))))) ''Cookie'' =
       Some (JStr ''lang=zh-cn;QSESSIONID=abc123; refresh_disable=1'')"
proof -
  define s1 where "s1 = snd (get_session bmc_env bmc1 (JStr ''r1'') fresh_proc)"
  have run: "get_session bmc_env bmc1 (JStr ''r1'') fresh_proc = (Inr (), s1)"
    unfolding s1_def by (rule bmc_env_session)
  have ck: "map_of (Fans_headers s1) ''Cookie'' =
      Some (JStr ''lang=zh-cn;QSESSIONID=abc123; refresh_disable=1'')"
    unfolding s1_def
    by (simp add: get_session_unfold [OF refl refl refl] bmc_env_def session_request_def
        login_response_def login_tokens map_of_dict_set session_cookie_def)
  from headers_shared_within_process [OF run]
  have "\<forall>b env2.
        last (trace (snd (get_random env2 b s1))) = random_request b (Fans_headers s1) \<and>
        req_headers (random_request b (Fans_headers s1)) = Fans_headers s1"
    by blast
  then have "req_headers (last (trace
        (snd (get_random echo_env (init_Fans ''bmc2'' ''admin'' ''admin'') s1)))) = Fans_headers s1"
    by simp
  with run ck show ?thesis by (intro exI [of _ s1]) simp
qed


end
